theory Spec2Isabelle
  imports Main "HOL-Library.Option_ord" "HOL-Library.Product_Lexorder"
begin

section \<open>Persisted health state\<close>

text \<open>
  The program keeps its per-site health counters in the JSON file
  \<^verbatim>\<open>failure_tracker.json\<close> and appends failures to \<^verbatim>\<open>error_log.txt\<close>.
  The JSON object has the four keys that \<^verbatim>\<open>track_failure\<close> creates:
  \<^verbatim>\<open>failures\<close>, \<^verbatim>\<open>consecutive_fails\<close>, \<^verbatim>\<open>last_success\<close> and \<^verbatim>\<open>stats\<close>.
  Python integers are unbounded, so the counters are \<open>int\<close>. A dictionary keyed by
  site name is a map from strings.

  The file is in one of three states: it does not exist, it holds such an object, or
  it cannot be read as one (\<^verbatim>\<open>json.load\<close> or a key lookup raises). In the last
  state both functions below take their \<^verbatim>\<open>except\<close> branch.

  Time stamps come from \<^verbatim>\<open>datetime.now().isoformat()\<close>; the clock is part of the
  environment and is read from the state.
\<close>

record tracker =
  failures :: "string \<rightharpoonup> string"
  consecutive_fails :: "string \<rightharpoonup> int"
  last_success :: "string \<rightharpoonup> string"
  total_runs :: int
  successful_runs :: int

datatype tracker_file = Absent | Data tracker | Corrupt

datatype err_line =
  Site_failure string string string int
| Retry_failed string string string

record 'b sys =
  engine :: 'b
  clock :: string
  failure_file :: tracker_file
  error_log :: "err_line list"

definition new_tracker :: tracker where
  "new_tracker = \<lparr>failures = Map.empty, consecutive_fails = Map.empty,
     last_success = Map.empty, total_runs = 0, successful_runs = 0\<rparr>"

text \<open>\<^verbatim>\<open>d.get(site, 0)\<close> on the \<^verbatim>\<open>consecutive_fails\<close> dictionary.\<close>

definition fails_get :: "tracker \<Rightarrow> string \<Rightarrow> int" where
  "fails_get d site = (case consecutive_fails d site of None \<Rightarrow> 0 | Some n \<Rightarrow> n)"

text \<open>
  \<^verbatim>\<open>track_failure(site, status)\<close>: every call adds one to \<^verbatim>\<open>total_runs\<close>; the
  statuses SUCCESS, NO_STORIES and SERVER_UNAVAILABLE reset the site's counter (and
  SUCCESS also stamps \<^verbatim>\<open>last_success\<close> and adds one to \<^verbatim>\<open>successful_runs\<close>);
  any other status adds one to the counter and appends a line to the error log. The
  result is the site's counter after the update, or 0 from the \<^verbatim>\<open>except\<close> branch.
\<close>

definition track_update :: "string \<Rightarrow> string \<Rightarrow> string \<Rightarrow> tracker \<Rightarrow> tracker" where
  "track_update now site status d0 =
     (let d = d0\<lparr>total_runs := total_runs d0 + 1\<rparr> in
      if status \<in> {''SUCCESS'', ''NO_STORIES'', ''SERVER_UNAVAILABLE''} then
        (let d1 = d\<lparr>consecutive_fails := (consecutive_fails d)(site \<mapsto> 0)\<rparr> in
         if status = ''SUCCESS''
         then d1\<lparr>last_success := (last_success d1)(site \<mapsto> now),
                 successful_runs := successful_runs d1 + 1\<rparr>
         else d1)
      else d\<lparr>consecutive_fails := (consecutive_fails d)(site \<mapsto> fails_get d site + 1)\<rparr>)"

definition track_failure :: "string \<Rightarrow> string \<Rightarrow> 'b sys \<Rightarrow> int \<times> 'b sys" where
  "track_failure site status s =
     (case failure_file s of
        Corrupt \<Rightarrow> (0, s)
      | f \<Rightarrow>
          (let d0 = (case f of Data d \<Rightarrow> d | _ \<Rightarrow> new_tracker);
               d = track_update (clock s) site status d0;
               log = (if status \<in> {''SUCCESS'', ''NO_STORIES'', ''SERVER_UNAVAILABLE''}
                      then error_log s
                      else error_log s @
                        [Site_failure (clock s) site status (fails_get d0 site + 1)])
           in (fails_get d site, s\<lparr>failure_file := Data d, error_log := log\<rparr>)))"

definition get_consecutive_fails :: "string \<Rightarrow> 'b sys \<Rightarrow> int" where
  "get_consecutive_fails site s =
     (case failure_file s of Data d \<Rightarrow> fails_get d site | _ \<Rightarrow> 0)"

definition stats_total :: "'b sys \<Rightarrow> int" where
  "stats_total s = (case failure_file s of Data d \<Rightarrow> total_runs d | _ \<Rightarrow> 0)"

definition stats_successful :: "'b sys \<Rightarrow> int" where
  "stats_successful s = (case failure_file s of Data d \<Rightarrow> successful_runs d | _ \<Rightarrow> 0)"

section \<open>Adaptive timeout\<close>

text \<open>
  \<^verbatim>\<open>get_adaptive_timeout(site_name, base_timeout)\<close> reads the site's counter from the
  tracker file and widens, tightens or keeps the base timeout (milliseconds).
\<close>

definition get_adaptive_timeout :: "string \<Rightarrow> int \<Rightarrow> 'b sys \<Rightarrow> int" where
  "get_adaptive_timeout site_name base_timeout s =
     (let consecutive = get_consecutive_fails site_name s in
      if consecutive \<ge> 3 then min 60000 (base_timeout + consecutive * 5000)
      else if consecutive = 0 then max 15000 (base_timeout - 5000)
      else base_timeout)"

section \<open>Health tracker: properties\<close>



lemma total_runs_track_update:
  "total_runs (track_update now site status d) = total_runs d + 1"
  by (simp add: track_update_def Let_def)

lemma successful_runs_track_update:
  "successful_runs (track_update now site status d) =
     successful_runs d + (if status = ''SUCCESS'' then 1 else 0)"
  by (simp add: track_update_def Let_def)

lemma fails_get_new_tracker [simp]: "fails_get new_tracker site = 0"
  by (simp add: fails_get_def new_tracker_def)

lemma track_failure_readable:
  "failure_file s \<noteq> Corrupt \<Longrightarrow> failure_file (snd (track_failure site status s)) \<noteq> Corrupt"
  by (cases "failure_file s") (simp_all add: track_failure_def Let_def)




definition sys0 :: "unit sys" where
  "sys0 = \<lparr>engine = (), clock = ''2026-01-01T00:00:00'', failure_file = Absent, error_log = []\<rparr>"


section \<open>Adaptive timeout: properties\<close>

text \<open>
  Claim C7, as amended. For every site, base timeout and tracker state, the adaptive
  timeout is \<open>min 60000 (base + failures * 5000)\<close> when the site has at least 3
  consecutive failures, \<open>max 15000 (base - 5000)\<close> when it has none, and the base
  otherwise. It is therefore non-decreasing in the failure count from 3 upwards. With
  no failures it is strictly below the base only when the base exceeds the floor of
  15000; every call site passes 25000 or 30000.
\<close>

theorem get_adaptive_timeout_rule:
  "(3 \<le> get_consecutive_fails site s \<longrightarrow>
      get_adaptive_timeout site base s =
        min 60000 (base + get_consecutive_fails site s * 5000))
   \<and> (get_consecutive_fails site s = 0 \<longrightarrow>
      get_adaptive_timeout site base s = max 15000 (base - 5000))
   \<and> (get_consecutive_fails site s < 3 \<and> get_consecutive_fails site s \<noteq> 0 \<longrightarrow>
      get_adaptive_timeout site base s = base)
   \<and> (3 \<le> get_consecutive_fails site s
        \<and> get_consecutive_fails site s \<le> get_consecutive_fails site s' \<longrightarrow>
      get_adaptive_timeout site base s \<le> get_adaptive_timeout site base s')
   \<and> (get_consecutive_fails site s = 0 \<and> 15000 < base \<longrightarrow>
      get_adaptive_timeout site base s < base)"
  by (auto simp add: get_adaptive_timeout_def Let_def)

definition sys_fails :: "string \<Rightarrow> int \<Rightarrow> unit sys" where
  "sys_fails site n =
     sys0\<lparr>failure_file := Data (new_tracker\<lparr>consecutive_fails := [site \<mapsto> n]\<rparr>)\<rparr>"

theorem get_adaptive_timeout_rule_witness:
  "3 \<le> get_consecutive_fails ''Mollygram'' (sys_fails ''Mollygram'' 3)
   \<and> get_consecutive_fails ''Mollygram'' (sys_fails ''Mollygram'' 3)
       \<le> get_consecutive_fails ''Mollygram'' (sys_fails ''Mollygram'' 4)
   \<and> get_adaptive_timeout ''Mollygram'' 30000 (sys_fails ''Mollygram'' 3) = 45000
   \<and> get_adaptive_timeout ''Mollygram'' 30000 (sys_fails ''Mollygram'' 3)
       \<le> get_adaptive_timeout ''Mollygram'' 30000 (sys_fails ''Mollygram'' 4)
   \<and> get_consecutive_fails ''Mollygram'' sys0 = 0 \<and> (15000 :: int) < 30000
   \<and> get_adaptive_timeout ''Mollygram'' 30000 sys0 = 25000
   \<and> get_adaptive_timeout ''Mollygram'' 30000 sys0 < 30000
   \<and> get_consecutive_fails ''Mollygram'' (sys_fails ''Mollygram'' 2) < 3
   \<and> get_consecutive_fails ''Mollygram'' (sys_fails ''Mollygram'' 2) \<noteq> 0
   \<and> get_adaptive_timeout ''Mollygram'' 30000 (sys_fails ''Mollygram'' 2) = 30000"
proof -
  have f: "get_consecutive_fails ''Mollygram'' (sys_fails ''Mollygram'' n) = n" for n
    by (simp add: sys_fails_def sys0_def get_consecutive_fails_def fails_get_def)
  have z: "get_consecutive_fails ''Mollygram'' sys0 = 0"
    by (simp add: sys0_def get_consecutive_fails_def)
  show ?thesis
    using get_adaptive_timeout_rule
        [of "''Mollygram''" "sys_fails ''Mollygram'' 3" 30000 "sys_fails ''Mollygram'' 4"]
      get_adaptive_timeout_rule [of "''Mollygram''" sys0 30000 sys0]
      get_adaptive_timeout_rule
        [of "''Mollygram''" "sys_fails ''Mollygram'' 2" 30000 sys0]
    by (simp add: f z)
qed

text \<open>
  The claim as written fails at the floor: with no failures and a base of 15000 the
  timeout is 15000, not strictly less than the base; with a base of 10000 it is above
  the base.
\<close>

theorem get_adaptive_timeout_floor_counterexample:
  "get_consecutive_fails ''Mollygram'' sys0 = 0
   \<and> get_adaptive_timeout ''Mollygram'' 15000 sys0 = 15000
   \<and> \<not> get_adaptive_timeout ''Mollygram'' 15000 sys0 < 15000
   \<and> get_adaptive_timeout ''Mollygram'' 10000 sys0 = 15000"
  by (simp add: get_adaptive_timeout_def get_consecutive_fails_def sys0_def)

section \<open>Retry executor\<close>

text \<open>
  A Python exception caught by \<^verbatim>\<open>except Exception\<close> is a value carrying its type name
  and its message. A fallible operation is a function on the state that either raises
  (\<open>Inl\<close>) or returns (\<open>Inr\<close>).

  \<^verbatim>\<open>retry_with_backoff(func, max_retries)\<close> runs the loop
  \<^verbatim>\<open>for attempt in range(max_retries + 1)\<close>. Besides the result and the new state it
  yields the events of the loop in order: \<open>Call\<close> for each invocation of \<open>func\<close> and
  \<open>Sleep n\<close> for each \<^verbatim>\<open>time.sleep(n)\<close>. When the last attempt raises, a
  \<^verbatim>\<open>RETRY_FAILED\<close> line goes to the error log and the exception is raised again. An
  empty range (a negative \<^verbatim>\<open>max_retries\<close>) falls through the loop and returns
  Python's \<^verbatim>\<open>None\<close>, here \<open>Inr None\<close>.
\<close>

datatype exn = Exn (exn_type: string) (exn_msg: string)

datatype event = Call | Sleep int

function retry_loop ::
  "('b sys \<Rightarrow> (exn + 'a) \<times> 'b sys) \<Rightarrow> int \<Rightarrow> nat \<Rightarrow> 'b sys
     \<Rightarrow> (exn + 'a option) \<times> 'b sys \<times> event list" where
  "retry_loop func max_retries attempt s =
     (if int attempt > max_retries then (Inr None, s, [])
      else case func s of
        (Inr result, s') \<Rightarrow> (Inr (Some result), s', [Call])
      | (Inl e, s') \<Rightarrow>
          if int attempt = max_retries
          then (Inl e,
                s'\<lparr>error_log := error_log s' @
                   [Retry_failed (clock s') (exn_type e) (take 80 (exn_msg e))]\<rparr>,
                [Call])
          else (case retry_loop func max_retries (Suc attempt) s' of
                  (r, s'', ev) \<Rightarrow> (r, s'', Call # Sleep (2 ^ attempt + 1) # ev)))"
  by pat_completeness auto
termination
  by (relation "measure (\<lambda>(func, max_retries, attempt, s). nat (max_retries + 1 - int attempt))")
     auto

definition retry_with_backoff ::
  "('b sys \<Rightarrow> (exn + 'a) \<times> 'b sys) \<Rightarrow> int \<Rightarrow> 'b sys
     \<Rightarrow> (exn + 'a option) \<times> 'b sys \<times> event list" where
  "retry_with_backoff func max_retries s = retry_loop func max_retries 0 s"

text \<open>
  \<open>failures func n s\<close> tells whether \<open>n\<close> invocations of \<open>func\<close> in a row, starting in
  state \<open>s\<close>, all raise; if so it gives the exceptions in order and the state reached.
\<close>

fun failures ::
  "('s \<Rightarrow> (exn + 'a) \<times> 's) \<Rightarrow> nat \<Rightarrow> 's \<Rightarrow> (exn list \<times> 's) option" where
  "failures func 0 s = Some ([], s)"
| "failures func (Suc n) s =
     (case func s of
        (Inl e, s') \<Rightarrow>
          (case failures func n s' of Some (es, t) \<Rightarrow> Some (e # es, t) | None \<Rightarrow> None)
      | (Inr r, s') \<Rightarrow> None)"

text \<open>The events of attempts \<open>a, \<dots>, b - 1\<close> failing, followed by attempt \<open>b\<close>.\<close>

definition backoff_events :: "nat \<Rightarrow> nat \<Rightarrow> event list" where
  "backoff_events a b = concat (map (\<lambda>k. [Call, Sleep (2 ^ k + 1)]) [a..<b]) @ [Call]"

definition log_retry_failed :: "exn \<Rightarrow> 'b sys \<Rightarrow> 'b sys" where
  "log_retry_failed e s =
     s\<lparr>error_log := error_log s @ [Retry_failed (clock s) (exn_type e) (take 80 (exn_msg e))]\<rparr>"

declare retry_loop.simps [simp del]

lemma backoff_events_step:
  "a < b \<Longrightarrow> backoff_events a b = Call # Sleep (2 ^ a + 1) # backoff_events (Suc a) b"
  by (simp add: backoff_events_def upt_conv_Cons)

lemma backoff_events_refl [simp]: "backoff_events a a = [Call]"
  by (simp add: backoff_events_def)

lemma retry_loop_shape:
  "int a \<le> N \<Longrightarrow>
   \<exists>b. a \<le> b \<and> int b \<le> N \<and> snd (snd (retry_loop func N a s)) = backoff_events a b"
proof (induction func N a s rule: retry_loop.induct)
  case (1 func N a s)
  obtain r s' where f: "func s = (r, s')" by (cases "func s")
  show ?case
  proof (cases r)
    case (Inr v)
    with f 1(2) show ?thesis
      by (subst retry_loop.simps) (auto intro: exI [of _ a])
  next
    case (Inl e)
    show ?thesis
    proof (cases "int a = N")
      case True
      with f Inl show ?thesis
        by (subst retry_loop.simps) (auto intro: exI [of _ a])
    next
      case False
      with 1(2) have lt: "int (Suc a) \<le> N" by simp
      from 1(2) have nlt: "\<not> N < int a" by simp
      from 1(1) [OF nlt f [symmetric] Inl False lt]
      obtain b where b: "Suc a \<le> b" "int b \<le> N"
        "snd (snd (retry_loop func N (Suc a) s')) = backoff_events (Suc a) b"
        by auto
      have "snd (snd (retry_loop func N a s)) =
          Call # Sleep (2 ^ a + 1) # snd (snd (retry_loop func N (Suc a) s'))"
        using f Inl False 1(2)
        by (subst retry_loop.simps) (simp split: prod.splits)
      with b show ?thesis
        by (intro exI [of _ b]) (simp add: backoff_events_step)
    qed
  qed
qed

lemma count_backoff_events:
  "a \<le> b \<Longrightarrow> length (filter (\<lambda>e. e = Call) (backoff_events a b)) = b - a + 1"
  by (induction b) (simp_all add: backoff_events_def Suc_diff_le)

lemma retry_loop_exhaust:
  "int a \<le> N \<Longrightarrow> failures func (Suc (nat N - a)) s = Some (es, t) \<Longrightarrow>
   retry_loop func N a s = (Inl (last es), log_retry_failed (last es) t, backoff_events a (nat N))"
proof (induction func N a s arbitrary: es rule: retry_loop.induct)
  case (1 func N a s)
  obtain r s' where f: "func s = (r, s')" by (cases "func s")
  from 1(3) f obtain e where e: "r = Inl e"
    by (cases r) auto
  show ?case
  proof (cases "int a = N")
    case True
    then have "nat N - a = 0" and n: "nat N = a" by simp_all
    with 1(3) f e have "es = [e]" "t = s'" by auto
    with True f e n show ?thesis
      by (subst retry_loop.simps) (simp add: log_retry_failed_def)
  next
    case False
    with 1(2) have lt: "int (Suc a) \<le> N" by simp
    then have d: "nat N - a = Suc (nat N - Suc a)" by linarith
    from 1(3) f e d obtain es' where
      es': "failures func (Suc (nat N - Suc a)) s' = Some (es', t)" "es = e # es'"
      by (auto split: option.splits)
    from es'(1) have ne: "es' \<noteq> []" by (auto split: prod.splits sum.splits option.splits)
    have "retry_loop func N (Suc a) s' =
        (Inl (last es'), log_retry_failed (last es') t, backoff_events (Suc a) (nat N))"
      using 1(2) by (intro 1(1) [OF _ f [symmetric] e False lt es'(1)]) simp
    moreover have "a < nat N" using lt by linarith
    ultimately show ?thesis
      using f e False 1(2) es'(2) ne
      by (subst retry_loop.simps) (simp add: backoff_events_step)
  qed
qed

text \<open>
  Claim C8. For every fallible operation and every \<open>N \<ge> 0\<close>, the retry executor called
  with \<open>max_retries = N\<close> invokes the operation at most \<open>N + 1\<close> times; its events are
  \<open>Call, Sleep (2^0 + 1), Call, Sleep (2^1 + 1), \<dots>, Call\<close>, that is, it sleeps
  \<open>2^k + 1\<close> seconds after failed attempt \<open>k\<close> and before attempt \<open>k + 1\<close>; and if all
  \<open>N + 1\<close> attempts raise, it appends one \<^verbatim>\<open>RETRY_FAILED\<close> line for the last exception
  to the error log and raises that exception again.
\<close>

theorem retry_with_backoff_attempts:
  "0 \<le> N \<longrightarrow>
     length (filter (\<lambda>e. e = Call) (snd (snd (retry_with_backoff func N s)))) \<le> nat N + 1
   \<and> (\<exists>m. int m \<le> N \<and> snd (snd (retry_with_backoff func N s)) = backoff_events 0 m)
   \<and> (\<forall>es t. failures func (nat N + 1) s = Some (es, t) \<longrightarrow>
         retry_with_backoff func N s =
           (Inl (last es), log_retry_failed (last es) t, backoff_events 0 (nat N)))"
proof (intro impI conjI allI)
  assume N: "0 \<le> N"
  then have "int 0 \<le> N" by simp
  from retry_loop_shape [OF this, of func s]
  obtain b where b: "int b \<le> N"
    "snd (snd (retry_loop func N 0 s)) = backoff_events 0 b"
    by auto
  show "\<exists>m. int m \<le> N \<and> snd (snd (retry_with_backoff func N s)) = backoff_events 0 m"
    using b by (auto simp add: retry_with_backoff_def)
  have "b \<le> nat N" using b(1) by linarith
  then show "length (filter (\<lambda>e. e = Call) (snd (snd (retry_with_backoff func N s))))
      \<le> nat N + 1"
    using b(2) count_backoff_events [of 0 b] by (simp add: retry_with_backoff_def)
  show "retry_with_backoff func N s =
      (Inl (last es), log_retry_failed (last es) t, backoff_events 0 (nat N))"
    if "failures func (nat N + 1) s = Some (es, t)" for es t
    using retry_loop_exhaust [of 0 N func s es t] N that
    by (simp add: retry_with_backoff_def)
qed

definition always_timeout :: "unit sys \<Rightarrow> (exn + unit) \<times> unit sys" where
  "always_timeout s = (Inl (Exn ''TimeoutError'' ''Timeout 25000ms exceeded''), s)"

theorem retry_with_backoff_attempts_witness:
  "(0 :: int) \<le> 1
   \<and> failures always_timeout (nat 1 + 1) sys0 =
       Some ([Exn ''TimeoutError'' ''Timeout 25000ms exceeded'',
              Exn ''TimeoutError'' ''Timeout 25000ms exceeded''], sys0)
   \<and> retry_with_backoff always_timeout 1 sys0 =
       (Inl (Exn ''TimeoutError'' ''Timeout 25000ms exceeded''),
        sys0\<lparr>error_log := [Retry_failed ''2026-01-01T00:00:00'' ''TimeoutError''
                             ''Timeout 25000ms exceeded'']\<rparr>,
        [Call, Sleep 2, Call])"
proof -
  have f: "failures always_timeout (nat 1 + 1) sys0 =
       Some ([Exn ''TimeoutError'' ''Timeout 25000ms exceeded'',
              Exn ''TimeoutError'' ''Timeout 25000ms exceeded''], sys0)"
    by (simp add: always_timeout_def)
  have ev: "backoff_events 0 (nat 1) = [Call, Sleep 2, Call]"
    by (simp add: backoff_events_def)
  have le: "(0 :: int) \<le> 1" by simp
  note th = retry_with_backoff_attempts [of 1 always_timeout sys0, THEN mp, OF le,
      THEN conjunct2, THEN conjunct2, rule_format, OF f]
  have r: "retry_with_backoff always_timeout 1 sys0 =
       (Inl (Exn ''TimeoutError'' ''Timeout 25000ms exceeded''),
        sys0\<lparr>error_log := [Retry_failed ''2026-01-01T00:00:00'' ''TimeoutError''
                             ''Timeout 25000ms exceeded'']\<rparr>,
        [Call, Sleep 2, Call])"
    using th ev by (simp add: log_retry_failed_def sys0_def)
  show ?thesis by (intro conjI le f r)
qed

section \<open>Strings\<close>

text \<open>
  Python strings are modelled as \<open>string\<close>, a list of 8-bit characters: the UTF-8
  encoding of the text. On ASCII text every operation below is the Python one; where
  Python works on code points beyond ASCII (\<^verbatim>\<open>len\<close>, \<^verbatim>\<open>lower\<close>, slicing, white
  space beyond ASCII, replacement of ill-formed UTF-8 in \<^verbatim>\<open>unquote\<close>) the model works
  on the bytes.
\<close>

text \<open>\<^verbatim>\<open>str.isspace\<close> on ASCII: tab, line feed, VT, FF, CR, FS, GS, RS, US, space.\<close>

definition is_space :: "char \<Rightarrow> bool" where
  "is_space c = (c \<in> set [CHR 0x09, CHR 0x0A, CHR 0x0B, CHR 0x0C, CHR 0x0D,
                           CHR 0x1C, CHR 0x1D, CHR 0x1E, CHR 0x1F, CHR 0x20])"

definition strip :: "string \<Rightarrow> string" where
  "strip s = rev (dropWhile is_space (rev (dropWhile is_space s)))"

fun startswith :: "string \<Rightarrow> string \<Rightarrow> bool" where
  "startswith s [] = True"
| "startswith [] (p # ps) = False"
| "startswith (c # cs) (p # ps) = (c = p \<and> startswith cs ps)"

text \<open>\<^verbatim>\<open>sub in s\<close>.\<close>

fun contains :: "string \<Rightarrow> string \<Rightarrow> bool" where
  "contains sub [] = (sub = [])"
| "contains sub (c # cs) = (startswith (c # cs) sub \<or> contains sub cs)"

text \<open>
  \<^verbatim>\<open>s.split(sep)\<close> for a non-empty separator: the pieces between the occurrences of
  \<open>sep\<close>, found from the left without overlap. After a match the counter skips the rest
  of the separator.
\<close>

fun split_from :: "string \<Rightarrow> nat \<Rightarrow> string \<Rightarrow> string \<Rightarrow> string list" where
  "split_from sep k acc [] = [rev acc]"
| "split_from sep (Suc k) acc (c # cs) = split_from sep k acc cs"
| "split_from sep 0 acc (c # cs) =
     (if startswith (c # cs) sep then rev acc # split_from sep (length sep - 1) [] cs
      else split_from sep 0 (c # acc) cs)"

definition py_split :: "string \<Rightarrow> string \<Rightarrow> string list" where
  "py_split s sep = split_from sep 0 [] s"

text \<open>\<^verbatim>\<open>s[-20:]\<close>.\<close>

definition last20 :: "string \<Rightarrow> string" where
  "last20 s = drop (length s - 20) s"

definition lower_char :: "char \<Rightarrow> char" where
  "lower_char c =
     (case map_of (zip ''ABCDEFGHIJKLMNOPQRSTUVWXYZ'' ''abcdefghijklmnopqrstuvwxyz'') c of
        Some d \<Rightarrow> d | None \<Rightarrow> c)"

definition lower :: "string \<Rightarrow> string" where
  "lower s = map lower_char s"

subsection \<open>urllib.parse\<close>

text \<open>
  \<^verbatim>\<open>unquote\<close> replaces every \<^verbatim>\<open>%XX\<close> with two hexadecimal digits by the byte it
  names and leaves any other \<^verbatim>\<open>%\<close> in place.
\<close>

definition hex_val :: "char \<Rightarrow> nat option" where
  "hex_val c = map_of (zip ''0123456789abcdefABCDEF''
     [0, 1, 2, 3, 4, 5, 6, 7, 8, 9, 10, 11, 12, 13, 14, 15, 10, 11, 12, 13, 14, 15]) c"

fun unquote :: "string \<Rightarrow> string" where
  "unquote [] = []"
| "unquote [c] = [c]"
| "unquote [c, d] = [c, d]"
| "unquote (c # a # b # rest) =
     (if c = CHR ''%'' then
        (case (hex_val a, hex_val b) of
           (Some h, Some l) \<Rightarrow> char_of (16 * h + l) # unquote rest
         | _ \<Rightarrow> c # unquote (a # b # rest))
      else c # unquote (a # b # rest))"

text \<open>
  \<^verbatim>\<open>urlparse\<close>, as far as the program reads its result: scheme, network location and
  query. Leading control characters and spaces are dropped and tab, CR and LF are
  removed; a scheme is a letter followed by letters, digits, \<^verbatim>\<open>+\<close>, \<^verbatim>\<open>-\<close> or
  \<^verbatim>\<open>.\<close> up to the first colon; the network location follows \<^verbatim>\<open>//\<close> and ends at the
  first \<^verbatim>\<open>/\<close>, \<^verbatim>\<open>?\<close> or \<^verbatim>\<open>#\<close>; the fragment is cut at the first \<^verbatim>\<open>#\<close> and the
  query at the first \<^verbatim>\<open>?\<close>. A square bracket without its partner in the network
  location raises \<^verbatim>\<open>ValueError\<close>, here \<open>None\<close>. The validation of a bracketed host
  as an IP literal, which newer Python versions add, is not modelled.
\<close>

record url_parts =
  scheme :: string
  netloc :: string
  path :: string
  query :: string
  fragment :: string

definition is_alpha :: "char \<Rightarrow> bool" where
  "is_alpha c = (c \<in> set ''abcdefghijklmnopqrstuvwxyzABCDEFGHIJKLMNOPQRSTUVWXYZ'')"

definition is_scheme_char :: "char \<Rightarrow> bool" where
  "is_scheme_char c = (is_alpha c \<or> c \<in> set ''0123456789+-.'')"

definition is_c0_or_space :: "char \<Rightarrow> bool" where
  "is_c0_or_space c = ((of_char c :: nat) \<le> 32)"

text \<open>\<^verbatim>\<open>s.split(c, 1)\<close> when \<open>c\<close> occurs in \<open>s\<close>: the parts before and after its first occurrence.\<close>

definition cut_at :: "char \<Rightarrow> string \<Rightarrow> string \<times> string" where
  "cut_at c s = (takeWhile (\<lambda>d. d \<noteq> c) s, drop 1 (dropWhile (\<lambda>d. d \<noteq> c) s))"

definition urlparse :: "string \<Rightarrow> url_parts option" where
  "urlparse url0 =
     (let url = filter (\<lambda>c. c \<notin> set [CHR 0x09, CHR 0x0D, CHR 0x0A])
                  (dropWhile is_c0_or_space url0);
          head = takeWhile (\<lambda>c. c \<noteq> CHR '':'') url;
          (sch, rest) =
            (if CHR '':'' \<in> set url \<and> head \<noteq> [] \<and> is_alpha (hd head)
                \<and> list_all is_scheme_char head
             then (lower head, drop (length head + 1) url)
             else ([], url));
          (loc, rest1) =
            (if startswith rest ''//''
             then (takeWhile (\<lambda>c. c \<notin> set ''/?#'') (drop 2 rest),
                   dropWhile (\<lambda>c. c \<notin> set ''/?#'') (drop 2 rest))
             else ([], rest));
          (rest2, frag) = (if CHR ''#'' \<in> set rest1 then cut_at CHR ''#'' rest1 else (rest1, []));
          (pth, qry) = (if CHR ''?'' \<in> set rest2 then cut_at CHR ''?'' rest2 else (rest2, []))
      in if (CHR ''['' \<in> set loc) \<noteq> (CHR '']'' \<in> set loc) then None
         else Some \<lparr>scheme = sch, netloc = loc, path = pth, query = qry, fragment = frag\<rparr>)"

text \<open>
  \<^verbatim>\<open>parse_qs\<close>: the query is split at \<^verbatim>\<open>&\<close>; a field without \<^verbatim>\<open>=\<close> or with an empty
  value is dropped; in name and value \<^verbatim>\<open>+\<close> becomes a space and percent escapes are
  decoded. \<open>qs_get name q\<close> is \<^verbatim>\<open>parse_qs(q)[name][0]\<close>, and \<open>None\<close> when the name is
  not a key.
\<close>

definition plus_to_space :: "string \<Rightarrow> string" where
  "plus_to_space s = map (\<lambda>c. if c = CHR ''+'' then CHR '' '' else c) s"

definition parse_field :: "string \<Rightarrow> (string \<times> string) option" where
  "parse_field name_value =
     (if CHR ''='' \<notin> set name_value then None
      else (let (n, v) = cut_at CHR ''='' name_value in
            if v = [] then None
            else Some (unquote (plus_to_space n), unquote (plus_to_space v))))"

definition parse_qsl :: "string \<Rightarrow> (string \<times> string) list" where
  "parse_qsl qs = List.map_filter parse_field (py_split qs ''&'')"

definition qs_get :: "string \<Rightarrow> string \<Rightarrow> string option" where
  "qs_get name qs = map_of (parse_qsl qs) name"


section \<open>Link normalizer\<close>

text \<open>
  \<^verbatim>\<open>extract_real_url\<close>: the \<^verbatim>\<open>img2.php?url=\<close> form takes the \<^verbatim>\<open>url\<close> parameter
  and decodes it twice more; the \<^verbatim>\<open>filename=\<close> form takes the text up to the next
  \<^verbatim>\<open>&\<close> and decodes it once; any exception gives the input back.
\<close>

definition extract_real_url :: "string \<Rightarrow> string" where
  "extract_real_url iqsaved_url =
     (if contains ''img2.php?url='' iqsaved_url then
        (case urlparse iqsaved_url of
           None \<Rightarrow> iqsaved_url
         | Some parsed \<Rightarrow>
             (case qs_get ''url'' (query parsed) of
                Some real_url \<Rightarrow> unquote (unquote real_url)
              | None \<Rightarrow> iqsaved_url))
      else if contains ''filename='' iqsaved_url then
        (case py_split iqsaved_url ''filename='' of
           _ # after # _ \<Rightarrow> unquote (hd (py_split after ''&''))
         | _ \<Rightarrow> iqsaved_url)
      else iqsaved_url)"

text \<open>
  The regular expression \<^verbatim>\<open>(aHR0cHM6Ly[^&\s]+)\<close>: the leftmost place where the
  prefix is followed by at least one character that is neither \<^verbatim>\<open>&\<close> nor white
  space, and from there as many such characters as follow.
\<close>

definition re_stop :: "char \<Rightarrow> bool" where
  "re_stop c = (c = CHR ''&'' \<or> is_space c)"

fun re_search_base64 :: "string \<Rightarrow> string option" where
  "re_search_base64 [] = None"
| "re_search_base64 (c # cs) =
     (let tl = drop (length ''aHR0cHM6Ly'') (c # cs) in
      if startswith (c # cs) ''aHR0cHM6Ly'' \<and> tl \<noteq> [] \<and> \<not> re_stop (hd tl)
      then Some (''aHR0cHM6Ly'' @ takeWhile (\<lambda>d. \<not> re_stop d) tl)
      else re_search_base64 cs)"

text \<open>
  \<^verbatim>\<open>extract_instasaved_url\<close>. The base64 text is found after \<^verbatim>\<open>/\<close>, after \<^verbatim>\<open>?\<close>
  or by the regular expression, padded with \<^verbatim>\<open>=\<close> to a multiple of four and decoded.
  \<open>b64\<close> stands for \<^verbatim>\<open>base64.b64decode(s).decode('utf-8')\<close> of the standard library:
  \<open>None\<close> when either step raises.
\<close>

definition pad4 :: "string \<Rightarrow> string" where
  "pad4 s = (let missing_padding = length s mod 4 in
             if missing_padding \<noteq> 0 then s @ replicate (4 - missing_padding) CHR ''=''
             else s)"

definition extract_instasaved_url :: "(string \<Rightarrow> string option) \<Rightarrow> string \<Rightarrow> string" where
  "extract_instasaved_url b64 instasaved_url =
     (let decoded_once = unquote instasaved_url in
      if contains ''file='' decoded_once then
        (case py_split decoded_once ''file='' of
           _ # after # _ \<Rightarrow>
             (let file_decoded = unquote (hd (py_split after ''&''));
                  found =
                    (if contains ''/aHR0cHM6Ly'' file_decoded then
                       (case py_split file_decoded ''/aHR0cHM6Ly'' of
                          _ # base64_part # _ \<Rightarrow>
                            Some (''aHR0cHM6Ly'' @
                                  hd (py_split (hd (py_split base64_part ''?'')) ''&''))
                        | _ \<Rightarrow> None)
                     else if contains ''?aHR0cHM6Ly'' file_decoded then
                       (case py_split file_decoded ''?aHR0cHM6Ly'' of
                          _ # base64_part # _ \<Rightarrow>
                            Some (''aHR0cHM6Ly'' @ hd (py_split base64_part ''&''))
                        | _ \<Rightarrow> None)
                     else re_search_base64 file_decoded)
              in case found of
                   None \<Rightarrow> instasaved_url
                 | Some base64_string \<Rightarrow>
                     (case b64 (pad4 base64_string) of
                        Some instagram_url \<Rightarrow> instagram_url
                      | None \<Rightarrow> instasaved_url))
         | _ \<Rightarrow> instasaved_url)
      else instasaved_url)"

section \<open>Link validator\<close>

definition validate_url_format :: "string \<Rightarrow> bool" where
  "validate_url_format url =
     (case urlparse url of
        None \<Rightarrow> False
      | Some parsed \<Rightarrow> scheme parsed \<noteq> [] \<and> netloc parsed \<noteq> [] \<and> length url \<ge> 10)"

definition instagram_patterns :: "string list" where
  "instagram_patterns =
     [''cdninstagram.com'', ''scontent.cdninstagram.com'', ''fbcdn.net'', ''instagram.f'',
      ''instagram.com'', ''scontent-'', ''.mp4'', ''.jpg'', ''.jpeg'', ''.png'', ''.webp'']"

text \<open>
  The body of the loop of \<^verbatim>\<open>validate_links\<close> for one entry: \<open>Some\<close> the link that is
  appended to \<^verbatim>\<open>valid_links\<close>, or \<open>None\<close> when the entry is counted as invalid.
\<close>

definition validate_link :: "(string \<Rightarrow> string option) \<Rightarrow> string \<Rightarrow> string option" where
  "validate_link b64 link0 =
     (if link0 = [] then None
      else let link = strip link0 in
        if length link < 10 then None
        else let converted =
               (if contains ''cdn.iqsaved.com'' link then
                  (let real_url = extract_real_url link in
                   if real_url = [] \<or> real_url = link \<or> \<not> validate_url_format real_url
                   then None else Some real_url)
                else if contains ''instasaved.net'' link \<and> contains ''download-file'' link then
                  (let real_url = extract_instasaved_url b64 link in
                   if real_url = [] \<or> real_url = link \<or> \<not> validate_url_format real_url
                   then None else Some real_url)
                else Some link)
        in case converted of
             None \<Rightarrow> None
           | Some link' \<Rightarrow>
               if \<not> validate_url_format link' then None
               else if \<not> list_ex (\<lambda>pattern. contains pattern (lower link')) instagram_patterns
               then None
               else if \<not> (startswith link' ''http://'' \<or> startswith link' ''https://'')
               then None
               else Some link')"

text \<open>The final pass: the first occurrence of every link, in order.\<close>

fun unique_links :: "string set \<Rightarrow> string list \<Rightarrow> string list" where
  "unique_links seen [] = []"
| "unique_links seen (link # links) =
     (if link \<in> seen then unique_links seen links
      else link # unique_links (insert link seen) links)"

definition validate_links :: "(string \<Rightarrow> string option) \<Rightarrow> string list \<Rightarrow> string list" where
  "validate_links b64 links = unique_links {} (List.map_filter (validate_link b64) links)"

section \<open>Canonical id\<close>

text \<open>
  \<^verbatim>\<open>get_clean_id\<close>. For an Instasaved download link with a \<^verbatim>\<open>file\<close> parameter the id
  comes from the decoded parameter; otherwise it is the last \<^verbatim>\<open>/\<close>-separated piece
  of the link up to its first \<^verbatim>\<open>?\<close>, or the last 20 characters when the link has no
  \<^verbatim>\<open>/\<close>. When \<^verbatim>\<open>urlparse\<close> raises, the fallback cuts that piece to 20 characters.
\<close>

definition last_segment :: "string \<Rightarrow> string" where
  "last_segment url = hd (py_split (last (py_split url ''/'')) ''?'')"

definition get_clean_id :: "string \<Rightarrow> string" where
  "get_clean_id url =
     (let direct = (if contains ''/'' url then last_segment url else last20 url) in
      if contains ''instasaved.net/download-file'' url then
        (case urlparse url of
           None \<Rightarrow> take 20 (last_segment url)
         | Some parsed \<Rightarrow>
             (case qs_get ''file'' (query parsed) of
                Some v \<Rightarrow>
                  (let insta_url = unquote v in
                   if contains ''/'' insta_url then last_segment insta_url
                   else last20 insta_url)
              | None \<Rightarrow> direct))
      else direct)"

section \<open>Normalizer, validator and id on the example link\<close>

text \<open>
  Claim C4, as amended. For the link
  \<^verbatim>\<open>https://proxy.example/img2.php?url=https%3A%2F%2Fcdninstagram.com%2Fa.jpg\<close> the
  normalizer yields \<^verbatim>\<open>https://cdninstagram.com/a.jpg\<close>; the validator accepts that
  canonical URL, and its clean id is \<^verbatim>\<open>a.jpg\<close>. The validator itself calls the
  normalizer only for the known proxy hosts: for the same link on \<^verbatim>\<open>cdn.iqsaved.com\<close>
  its output is the canonical URL.
\<close>

theorem normalizer_validator_example:
  "extract_real_url
       ''https://proxy.example/img2.php?url=https%3A%2F%2Fcdninstagram.com%2Fa.jpg''
     = ''https://cdninstagram.com/a.jpg''
   \<and> validate_links b64 [''https://cdninstagram.com/a.jpg'']
     = [''https://cdninstagram.com/a.jpg'']
   \<and> get_clean_id ''https://cdninstagram.com/a.jpg'' = ''a.jpg''
   \<and> validate_links b64
       [''https://cdn.iqsaved.com/img2.php?url=https%3A%2F%2Fcdninstagram.com%2Fa.jpg'']
     = [''https://cdninstagram.com/a.jpg'']"
  by code_simp

text \<open>
  The claim as written fails: given the list with the \<^verbatim>\<open>proxy.example\<close> link, the
  validator does not normalize it (the host is not a known proxy) and returns the raw
  link, which passes the pattern check because it contains \<^verbatim>\<open>cdninstagram.com\<close>; the
  clean id of that accepted link is \<^verbatim>\<open>img2.php\<close>.
\<close>

theorem validator_keeps_unknown_proxy_counterexample:
  "validate_links (\<lambda>s. None)
       [''https://proxy.example/img2.php?url=https%3A%2F%2Fcdninstagram.com%2Fa.jpg'']
     = [''https://proxy.example/img2.php?url=https%3A%2F%2Fcdninstagram.com%2Fa.jpg'']
   \<and> ''https://cdninstagram.com/a.jpg'' \<notin> set (validate_links (\<lambda>s. None)
       [''https://proxy.example/img2.php?url=https%3A%2F%2Fcdninstagram.com%2Fa.jpg''])
   \<and> get_clean_id
       ''https://proxy.example/img2.php?url=https%3A%2F%2Fcdninstagram.com%2Fa.jpg''
     = ''img2.php''
   \<and> get_clean_id
       ''https://proxy.example/img2.php?url=https%3A%2F%2Fcdninstagram.com%2Fa.jpg''
     \<noteq> ''a.jpg''"
  by code_simp

section \<open>The run\<close>

text \<open>
  A source adapter (\<^verbatim>\<open>safe_check_mollygram\<close> and its three siblings) drives the
  browser and returns \<^verbatim>\<open>(links, status, error_details)\<close>. The orchestrator calls each
  through \<^verbatim>\<open>retry_with_backoff(adapter, max_retries=1, page=page)\<close>. The four adapters
  are parameters of the orchestrator here, in the priority order of \<^verbatim>\<open>run\<close>:
  Mollygram, StoriesViewer, Instasaved, IQSaved.
\<close>

type_synonym outcome = "string list \<times> string \<times> string"

record 'b adapters =
  mollygram :: "'b sys \<Rightarrow> (exn + outcome) \<times> 'b sys"
  storiesviewer :: "'b sys \<Rightarrow> (exn + outcome) \<times> 'b sys"
  instasaved :: "'b sys \<Rightarrow> (exn + outcome) \<times> 'b sys"
  iqsaved :: "'b sys \<Rightarrow> (exn + outcome) \<times> 'b sys"

text \<open>
  What the run does to the outside, in order: the events of the retry executor for a
  named source, \<^verbatim>\<open>send_telegram(dida, url, is_video)\<close> for the story with a given
  clean id, and \<^verbatim>\<open>send_telegram(critical_alert)\<close>, whose text names the statuses of
  the first three sources. The pauses between deliveries are floating-point seconds
  and are left out.
\<close>

datatype run_event =
  Source string event
| Deliver (story_id: string) string string bool
| Critical_alert string string string

record src_results =
  links_molly :: "string list"
  molly_status :: string
  links_viewer :: "string list"
  storiesviewer_status :: string
  links_insta :: "string list"
  insta_status :: string
  links_iq :: "string list"
  iqsaved_status :: string

text \<open>
  One phase of the chain: the links and status start as \<^verbatim>\<open>[], "NOT_TESTED"\<close>; the
  result of the retry executor is unpacked into them; if it raises (or returns
  something that cannot be unpacked) the status becomes \<^verbatim>\<open>"CRASH"\<close> and the links
  stay empty.
\<close>

definition attempt_source ::
  "string \<Rightarrow> ('b sys \<Rightarrow> (exn + outcome) \<times> 'b sys) \<Rightarrow> 'b sys
     \<Rightarrow> (string list \<times> string) \<times> 'b sys \<times> run_event list" where
  "attempt_source name adapter s =
     (case retry_with_backoff adapter 1 s of
        (Inr (Some (links, status, error_details)), s', ev) \<Rightarrow>
          ((links, status), s', map (Source name) ev)
      | (_, s', ev) \<Rightarrow> (([], ''CRASH''), s', map (Source name) ev))"

definition run_sources ::
  "'b adapters \<Rightarrow> 'b sys \<Rightarrow> src_results \<times> 'b sys \<times> run_event list" where
  "run_sources ad s0 =
     (let ((l_molly, st_molly), s1, ev1) = attempt_source ''Mollygram'' (mollygram ad) s0;
          ((l_viewer, st_viewer), s2, ev2) =
            (if l_molly = [] then attempt_source ''StoriesViewer'' (storiesviewer ad) s1
             else (([], ''SKIPPED_SUCCESS''), s1, []));
          ((l_insta, st_insta), s3, ev3) =
            (if l_molly = [] \<and> l_viewer = []
             then attempt_source ''Instasaved'' (instasaved ad) s2
             else (([], ''SKIPPED_SUCCESS''), s2, []));
          ((l_iq, st_iq), s4, ev4) =
            (if l_molly = [] \<and> l_viewer = [] \<and> l_insta = []
             then attempt_source ''IQSaved'' (iqsaved ad) s3
             else (([], ''NOT_TESTED''), s3, []))
      in (\<lparr>links_molly = l_molly, molly_status = st_molly,
            links_viewer = l_viewer, storiesviewer_status = st_viewer,
            links_insta = l_insta, insta_status = st_insta,
            links_iq = l_iq, iqsaved_status = st_iq\<rparr>,
          s4, ev1 @ ev2 @ ev3 @ ev4))"

text \<open>
  \<^verbatim>\<open>add_links_safe\<close>, the closure inside \<^verbatim>\<open>run\<close>: a link joins \<^verbatim>\<open>all_links\<close> when
  its clean id is non-empty and not yet in \<^verbatim>\<open>seen_urls\<close>.
\<close>

fun add_links_safe ::
  "string list \<Rightarrow> string list \<times> string set \<Rightarrow> string list \<times> string set" where
  "add_links_safe [] acc = acc"
| "add_links_safe (url # source_links) (all_links, seen_urls) =
     (let clean_id = get_clean_id url in
      if clean_id \<noteq> [] \<and> clean_id \<notin> seen_urls
      then add_links_safe source_links (all_links @ [url], insert clean_id seen_urls)
      else add_links_safe source_links (all_links, seen_urls))"

text \<open>
  \<^verbatim>\<open>sort_links_chronologically\<close>. The first 100 links are probed; \<open>probe\<close> is the
  time stamp read from the response headers (seconds), \<open>None\<close> when the probe yields
  none, which the program records as \<^verbatim>\<open>float('inf')\<close>. The sort key is
  \<^verbatim>\<open>(-timestamp, index)\<close>; minus infinity is the least key, here \<open>None\<close>. The sort is
  stable and the indices differ, so the order in which the worker pool finishes does
  not matter. The links beyond the first 100 follow in their own order.
\<close>

definition sort_links_chronologically ::
  "(string \<Rightarrow> int option) \<Rightarrow> string list \<Rightarrow> string list" where
  "sort_links_chronologically probe links =
     (if length links \<le> 1 then links
      else
        (let links_to_sort = take 100 links;
             remaining_links = drop 100 links;
             links_with_dates = zip links_to_sort [0..<length links_to_sort]
         in map fst (sort_key (\<lambda>(url, i). (map_option uminus (probe url), i)) links_with_dates)
            @ remaining_links))"

text \<open>
  The ledger file \<^verbatim>\<open>history.txt\<close> is a list of lines, \<open>None\<close> when the file does not
  exist. Reading keeps the stripped non-blank lines.
\<close>

definition read_history :: "string list option \<Rightarrow> string list" where
  "read_history file =
     (case file of None \<Rightarrow> []
      | Some lines \<Rightarrow> map strip (filter (\<lambda>line. strip line \<noteq> []) lines))"

text \<open>
  The filter of \<^verbatim>\<open>run\<close>: a link becomes a new story when its clean id is non-empty
  and neither in the ledger nor met earlier in this loop.
\<close>

fun new_stories :: "string set \<Rightarrow> string list \<Rightarrow> (string \<times> string) list" where
  "new_stories seen_processing_ids [] = []"
| "new_stories seen_processing_ids (url # urls) =
     (let clean_id = get_clean_id url in
      if clean_id \<noteq> [] \<and> clean_id \<notin> seen_processing_ids
      then (url, clean_id) # new_stories (insert clean_id seen_processing_ids) urls
      else new_stories seen_processing_ids urls)"

definition SOGLIA_ALLUVIONE :: nat where
  "SOGLIA_ALLUVIONE = 150"

definition MAX_HISTORY :: nat where
  "MAX_HISTORY = 300"

text \<open>
  \<^verbatim>\<open>send_telegram\<close> converts an IQSaved link once more before posting and swallows
  every exception, so the \<^verbatim>\<open>except\<close> branch of the delivery loop is never taken and
  the id is appended after every call. \<open>dida i n url is_video\<close> is the caption for
  story \<open>i\<close> (from 0) of \<open>n\<close>: \<^verbatim>\<open>Storia i+1/n\<close>, or the keyword caption when the OCR
  service finds a keyword in a photo.
\<close>

definition send_telegram :: "string \<Rightarrow> string \<Rightarrow> string \<Rightarrow> bool \<Rightarrow> run_event" where
  "send_telegram clean_id text media_url is_video =
     Deliver clean_id text
       (if contains ''cdn.iqsaved.com/img2.php'' media_url then extract_real_url media_url
        else media_url)
       is_video"

fun send_stories ::
  "(nat \<Rightarrow> nat \<Rightarrow> string \<Rightarrow> bool \<Rightarrow> string) \<Rightarrow> nat \<Rightarrow> nat \<Rightarrow> (string \<times> string) list
     \<Rightarrow> run_event list \<times> string list" where
  "send_stories dida num_nuove i [] = ([], [])"
| "send_stories dida num_nuove i ((url0, clean_id) # items) =
     (let url = (if contains ''cdn.iqsaved.com/img2.php'' url0 then extract_real_url url0
                 else url0);
          (ev, ids) = send_stories dida num_nuove (Suc i) items
      in if contains ''cdn.iqsaved.com/img2.php'' url0 \<and> url = [] then (ev, ids)
         else
           (let is_video = (contains ''.mp4'' (lower url) \<or> contains ''video'' (lower url))
            in (send_telegram clean_id (dida i num_nuove url is_video) url is_video # ev,
                clean_id # ids)))"

text \<open>
  Saving the ledger: only when there are ids to add and \<^verbatim>\<open>check_disk_space()\<close> holds;
  the old ids followed by the new ones, cut to the last \<^verbatim>\<open>MAX_HISTORY\<close>, written one
  per line without the blank ones.
\<close>

definition save_history ::
  "string list \<Rightarrow> string list \<Rightarrow> bool \<Rightarrow> string list option \<Rightarrow> string list option" where
  "save_history seen_ids ids_to_add disk_ok file =
     (if ids_to_add \<noteq> [] \<and> disk_ok then
        (let updated_history = seen_ids @ ids_to_add;
             updated_history =
               (if length updated_history > MAX_HISTORY
                then drop (length updated_history - MAX_HISTORY) updated_history
                else updated_history)
         in Some (filter (\<lambda>sid. strip sid \<noteq> []) updated_history))
      else file)"

text \<open>The health check at the end of \<^verbatim>\<open>run\<close>.\<close>

definition any_success :: "src_results \<Rightarrow> bool" where
  "any_success r =
     ((molly_status r = ''SUCCESS'' \<and> length (links_molly r) > 0)
      \<or> (storiesviewer_status r = ''SUCCESS'' \<and> length (links_viewer r) > 0)
      \<or> (insta_status r = ''SUCCESS'' \<and> length (links_insta r) > 0)
      \<or> (iqsaved_status r = ''SUCCESS'' \<and> length (links_iq r) > 0))"

definition all_no_links :: "src_results \<Rightarrow> bool" where
  "all_no_links r =
     (molly_status r \<in> set [''NO_LINKS'', ''NOT_TESTED'']
      \<and> storiesviewer_status r \<in> set [''NO_LINKS'', ''NOT_TESTED'', ''SKIPPED_SUCCESS'']
      \<and> insta_status r \<in> set [''NO_LINKS'', ''NOT_TESTED'', ''SKIPPED_SUCCESS''])"

definition critical_alert :: "src_results \<Rightarrow> bool" where
  "critical_alert r = (\<not> any_success r \<and> \<not> all_no_links r)"

text \<open>
  What the run reads from outside besides the adapters: the base64 decoder, the time
  stamp probe, the disk-space check and the caption.
\<close>

record env =
  b64decode :: "string \<Rightarrow> string option"
  probe_timestamp :: "string \<Rightarrow> int option"
  disk_space_ok :: bool
  dida :: "nat \<Rightarrow> nat \<Rightarrow> string \<Rightarrow> bool \<Rightarrow> string"

record 'b run_result =
  sys_after :: "'b sys"
  history_after :: "string list option"
  events :: "run_event list"
  sources :: src_results
  tutti_i_link :: "string list"
  storie_da_processare :: "(string \<times> string) list"
  ids_to_add :: "string list"

text \<open>
  \<^verbatim>\<open>run\<close>, from the reading of the ledger to the health check, given the ledger file
  and the state left by the start-up housekeeping. The result holds the state and
  ledger file after the run, the events in order, and the values of the local
  variables that the properties speak about.
\<close>

definition run ::
  "env \<Rightarrow> 'b adapters \<Rightarrow> string list option \<Rightarrow> 'b sys \<Rightarrow> 'b run_result" where
  "run e ad history s0 =
     (let seen_ids = read_history history;
          (src, s1, ev_sources) = run_sources ad s0;
          all_links =
            fst (add_links_safe (links_iq src)
                  (add_links_safe (links_insta src)
                    (add_links_safe (links_viewer src)
                      (add_links_safe (links_molly src) ([], {})))));
          validated = validate_links (b64decode e) all_links;
          tutti = (if validated \<noteq> []
                   then sort_links_chronologically (probe_timestamp e) validated
                   else validated);
          storie = new_stories (set seen_ids) tutti;
          num_nuove = length storie;
          (ev_send, ids) =
            (if num_nuove > SOGLIA_ALLUVIONE then ([], map snd storie)
             else send_stories (dida e) num_nuove 0 storie);
          ev_health =
            (if critical_alert src
             then [Critical_alert (molly_status src) (storiesviewer_status src) (insta_status src)]
             else [])
      in \<lparr>sys_after = s1,
          history_after = save_history seen_ids ids (disk_space_ok e) history,
          events = ev_sources @ ev_send @ ev_health,
          sources = src,
          tutti_i_link = tutti,
          storie_da_processare = storie,
          ids_to_add = ids\<rparr>)"

section \<open>The run: properties\<close>


lemma new_stories_empty:
  "new_stories seen urls = [] \<longleftrightarrow>
     (\<forall>url \<in> set urls. get_clean_id url = [] \<or> get_clean_id url \<in> seen)"
  by (induction urls arbitrary: seen) (auto simp add: Let_def)

lemma send_stories_ids:
  "Deliver cid c u v \<in> set (fst (send_stories d n i items)) \<Longrightarrow> cid \<in> snd ` set items"
  by (induction items arbitrary: i)
     (fastforce simp add: Let_def send_telegram_def split_def split: if_splits)+

lemma attempt_source_events:
  "\<exists>ev. snd (snd (attempt_source name f s)) = map (Source name) ev \<and> Call \<in> set ev"
proof -
  obtain b where "snd (snd (retry_with_backoff f 1 s)) = backoff_events 0 b"
    using retry_loop_shape [of 0 1 f s] by (auto simp add: retry_with_backoff_def)
  moreover have "Call \<in> set (backoff_events 0 b)"
    by (simp add: backoff_events_def)
  ultimately show ?thesis
    by (auto simp add: attempt_source_def split: prod.splits sum.splits option.splits)
qed

lemma attempt_source_cases:
  obtains links status s' ev where
    "attempt_source name f s = ((links, status), s', map (Source name) ev)" "Call \<in> set ev"
proof -
  obtain ev where "snd (snd (attempt_source name f s)) = map (Source name) ev" "Call \<in> set ev"
    using attempt_source_events by blast
  then show ?thesis
    by (cases "attempt_source name f s") (auto intro: that)
qed

definition attempted :: "string \<Rightarrow> run_event list \<Rightarrow> bool" where
  "attempted name evs = (\<exists>ev. Source name ev \<in> set evs)"

lemma attempt_source_set:
  assumes "attempt_source name f s = (r, s', evs)"
  shows "Source name Call \<in> set evs" and "set evs \<subseteq> range (Source name)"
proof -
  obtain ev where "snd (snd (attempt_source name f s)) = map (Source name) ev" "Call \<in> set ev"
    using attempt_source_events by blast
  with assms show "Source name Call \<in> set evs" and "set evs \<subseteq> range (Source name)"
    by auto
qed

lemma attempted_attempt_source:
  assumes "attempt_source name f s = (r, s', evs)"
  shows "attempted other evs \<longleftrightarrow> other = name"
  using attempt_source_set [OF assms] by (auto simp add: attempted_def)

lemma attempted_append [simp]:
  "attempted name (xs @ ys) \<longleftrightarrow> attempted name xs \<or> attempted name ys"
  by (auto simp add: attempted_def)

lemma attempted_Nil [simp]: "\<not> attempted name []"
  by (simp add: attempted_def)

lemma run_sources_attempted:
  assumes "run_sources ad s = (src, s', evs)"
  shows "attempted ''Mollygram'' evs"
    and "attempted ''StoriesViewer'' evs \<longleftrightarrow> links_molly src = []"
    and "attempted ''Instasaved'' evs \<longleftrightarrow> links_molly src = [] \<and> links_viewer src = []"
    and "attempted ''IQSaved'' evs \<longleftrightarrow>
           links_molly src = [] \<and> links_viewer src = [] \<and> links_insta src = []"
  using assms
  by (auto simp add: run_sources_def Let_def attempted_attempt_source
           split: prod.splits if_splits)

lemma run_sources_only_source_events:
  assumes "run_sources ad s = (src, s', evs)" and "e \<in> set evs"
  shows "\<exists>n ev. e = Source n ev"
  using assms
  by (auto simp add: run_sources_def Let_def split: prod.splits if_splits
           dest!: attempt_source_set(2)) blast+


lemma send_stories_no_source:
  "Source name ev \<notin> set (fst (send_stories d n k items))"
  by (induction items arbitrary: k)
     (fastforce simp add: Let_def send_telegram_def split_def split: if_splits)+

lemma run_fields:
  assumes "run_sources ad s = (src, s1, evs)"
  shows "sources (run e ad h s) = src"
    and "sys_after (run e ad h s) = s1"
    and "storie_da_processare (run e ad h s) =
           new_stories (set (read_history h)) (tutti_i_link (run e ad h s))"
    and "ids_to_add (run e ad h s) =
           (if length (storie_da_processare (run e ad h s)) > SOGLIA_ALLUVIONE
            then map snd (storie_da_processare (run e ad h s))
            else snd (send_stories (dida e) (length (storie_da_processare (run e ad h s))) 0
                        (storie_da_processare (run e ad h s))))"
    and "events (run e ad h s) =
           evs
           @ (if length (storie_da_processare (run e ad h s)) > SOGLIA_ALLUVIONE then []
              else fst (send_stories (dida e) (length (storie_da_processare (run e ad h s))) 0
                          (storie_da_processare (run e ad h s))))
           @ (if critical_alert src
              then [Critical_alert (molly_status src) (storiesviewer_status src)
                      (insta_status src)]
              else [])"
    and "history_after (run e ad h s) =
           save_history (read_history h) (ids_to_add (run e ad h s)) (disk_space_ok e) h"
  using assms by (simp_all add: run_def Let_def split_def)

lemma run_deliveries:
  assumes "Deliver cid c u v \<in> set (events (run e ad h s))"
  shows "cid \<in> snd ` set (storie_da_processare (run e ad h s))"
    and "\<not> length (storie_da_processare (run e ad h s)) > SOGLIA_ALLUVIONE"
proof -
  obtain src s1 evs where rs: "run_sources ad s = (src, s1, evs)"
    by (cases "run_sources ad s")
  have "Deliver cid c u v \<notin> set evs"
    using run_sources_only_source_events [OF rs] by auto
  with assms show "cid \<in> snd ` set (storie_da_processare (run e ad h s))"
    and "\<not> length (storie_da_processare (run e ad h s)) > SOGLIA_ALLUVIONE"
    by (auto simp add: run_fields(5) [OF rs] dest: send_stories_ids split: if_splits)
qed



text \<open>
  Claim C2. Mollygram is always attempted; StoriesViewer is attempted exactly when
  Mollygram yielded no link, Instasaved exactly when neither of the two yielded a link,
  and IQSaved exactly when none of the three did. So once a source yields a link, no
  source of lower priority is attempted: with Mollygram empty and StoriesViewer
  yielding a link, neither Instasaved nor IQSaved is attempted.
\<close>

theorem run_short_circuits_on_first_links:
  "attempted ''Mollygram'' (events (run e ad history s))
   \<and> (attempted ''StoriesViewer'' (events (run e ad history s)) \<longleftrightarrow>
        links_molly (sources (run e ad history s)) = [])
   \<and> (attempted ''Instasaved'' (events (run e ad history s)) \<longleftrightarrow>
        links_molly (sources (run e ad history s)) = []
        \<and> links_viewer (sources (run e ad history s)) = [])
   \<and> (attempted ''IQSaved'' (events (run e ad history s)) \<longleftrightarrow>
        links_molly (sources (run e ad history s)) = []
        \<and> links_viewer (sources (run e ad history s)) = []
        \<and> links_insta (sources (run e ad history s)) = [])
   \<and> (links_molly (sources (run e ad history s)) = []
        \<and> links_viewer (sources (run e ad history s)) \<noteq> [] \<longrightarrow>
        \<not> attempted ''Instasaved'' (events (run e ad history s))
        \<and> \<not> attempted ''IQSaved'' (events (run e ad history s)))"
proof -
  obtain src s1 evs where rs: "run_sources ad s = (src, s1, evs)"
    by (cases "run_sources ad s")
  have rest: "attempted name (events (run e ad history s)) \<longleftrightarrow> attempted name evs" for name
    by (auto simp add: run_fields(5) [OF rs] attempted_def send_stories_no_source)
  show ?thesis
    using run_sources_attempted [OF rs]
    by (simp add: rest run_fields(1) [OF rs])
qed


text \<open>
  Claim C10. If every candidate link of a run has an empty clean id or one that is
  already in the ledger (in particular if there are no candidates), the run has no
  story to process, delivers nothing, adds no id, and leaves the ledger file as it
  was.
\<close>

theorem run_without_new_ids_keeps_ledger:
  "(\<forall>url \<in> set (tutti_i_link (run e ad history s)).
       get_clean_id url = [] \<or> get_clean_id url \<in> set (read_history history)) \<longrightarrow>
     storie_da_processare (run e ad history s) = []
     \<and> ids_to_add (run e ad history s) = []
     \<and> (\<forall>cid c u v. Deliver cid c u v \<notin> set (events (run e ad history s)))
     \<and> history_after (run e ad history s) = history"
proof
  assume a: "\<forall>url \<in> set (tutti_i_link (run e ad history s)).
       get_clean_id url = [] \<or> get_clean_id url \<in> set (read_history history)"
  obtain src s1 evs where rs: "run_sources ad s = (src, s1, evs)"
    by (cases "run_sources ad s")
  have st: "storie_da_processare (run e ad history s) = []"
    using a by (simp add: run_fields(3) [OF rs] new_stories_empty)
  have ids: "ids_to_add (run e ad history s) = []"
    by (simp add: run_fields(4) [OF rs] st)
  have del: "Deliver cid c u v \<notin> set (events (run e ad history s))" for cid c u v
    using run_deliveries(1) [of cid c u v e ad history s] st by auto
  have "history_after (run e ad history s) = history"
    by (simp add: run_fields(6) [OF rs] ids save_history_def)
  with st ids del show "storie_da_processare (run e ad history s) = []
     \<and> ids_to_add (run e ad history s) = []
     \<and> (\<forall>cid c u v. Deliver cid c u v \<notin> set (events (run e ad history s)))
     \<and> history_after (run e ad history s) = history"
    by blast
qed


section \<open>Strings: facts used for families of links\<close>











section \<open>A family of direct links\<close>






section \<open>The pipeline on links that are all new\<close>









section \<open>Concrete runs\<close>

text \<open>An adapter that returns a fixed outcome and leaves the state alone.\<close>

definition returns :: "outcome \<Rightarrow> 'b sys \<Rightarrow> (exn + outcome) \<times> 'b sys" where
  "returns out s = (Inr out, s)"

text \<open>The default caption \<^verbatim>\<open>Storia i+1/n\<close>.\<close>

fun show_nat :: "nat \<Rightarrow> string" where
  "show_nat n =
     (if n < 10 then [''0123456789'' ! n]
      else show_nat (n div 10) @ [''0123456789'' ! (n mod 10)])"

declare show_nat.simps [simp del]

definition storia :: "nat \<Rightarrow> nat \<Rightarrow> string \<Rightarrow> bool \<Rightarrow> string" where
  "storia i n url is_video = ''Storia '' @ show_nat (i + 1) @ ''/'' @ show_nat n"

definition env0 :: env where
  "env0 = \<lparr>b64decode = (\<lambda>s. None), probe_timestamp = (\<lambda>url. None),
            disk_space_ok = True, dida = storia\<rparr>"

definition no_links :: "unit sys \<Rightarrow> (exn + outcome) \<times> unit sys" where
  "no_links = returns ([], ''NO_LINKS'', ''Nessun link trovato'')"

text \<open>
  A run in which Mollygram returns \<open>n\<close> direct links with the clean ids \<^verbatim>\<open>1\<close>,
  \<^verbatim>\<open>11\<close>, \<^verbatim>\<open>111\<close>, and so on.
\<close>

definition story_id :: "nat \<Rightarrow> string" where
  "story_id k = replicate (Suc k) CHR ''1''"



lemma attempt_source_returns:
  "attempt_source name (returns (links, status, err)) s =
     ((links, status), s, [Source name Call])"
  unfolding attempt_source_def retry_with_backoff_def
  by (subst retry_loop.simps) (simp add: returns_def)

lemma run_sources_molly_returns:
  assumes "mollygram ad = returns (links, status, err)" and "links \<noteq> []"
  shows "run_sources ad s =
     (\<lparr>links_molly = links, molly_status = status,
       links_viewer = [], storiesviewer_status = ''SKIPPED_SUCCESS'',
       links_insta = [], insta_status = ''SKIPPED_SUCCESS'',
       links_iq = [], iqsaved_status = ''NOT_TESTED''\<rparr>, s, [Source ''Mollygram'' Call])"
  using assms by (simp add: run_sources_def attempt_source_returns)








definition molly_two :: "unit adapters" where
  "molly_two =
     \<lparr>mollygram = returns ([''https://cdninstagram.com/a.jpg'',
                            ''https://cdninstagram.com/b.jpg''], ''SUCCESS'', []),
      storiesviewer = no_links, instasaved = no_links, iqsaved = no_links\<rparr>"

definition viewer_one :: "unit adapters" where
  "viewer_one =
     \<lparr>mollygram = returns ([], ''NO_STORIES'', ''User not found''),
      storiesviewer = returns ([''https://cdninstagram.com/b.jpg''], ''SUCCESS'', []),
      instasaved = no_links, iqsaved = no_links\<rparr>"


definition all_empty :: "unit adapters" where
  "all_empty =
     \<lparr>mollygram = no_links, storiesviewer = no_links,
      instasaved = no_links, iqsaved = no_links\<rparr>"



lemma sys_molly_two: "sys_after (run env0 molly_two (Some [''a.jpg'']) sys0) = sys0"
proof -
  have "run_sources molly_two sys0 =
     (\<lparr>links_molly = [''https://cdninstagram.com/a.jpg'', ''https://cdninstagram.com/b.jpg''],
       molly_status = ''SUCCESS'',
       links_viewer = [], storiesviewer_status = ''SKIPPED_SUCCESS'',
       links_insta = [], insta_status = ''SKIPPED_SUCCESS'',
       links_iq = [], iqsaved_status = ''NOT_TESTED''\<rparr>, sys0, [Source ''Mollygram'' Call])"
    by (rule run_sources_molly_returns) (simp_all add: molly_two_def)
  then show ?thesis by (rule run_fields(2))
qed

lemma events_molly_two_again: "events (run env0 molly_two (Some [''a.jpg'', ''b.jpg'']) sys0) = [Source ''Mollygram'' Call]"
  by code_simp

lemma events_viewer_one: "events (run env0 viewer_one None sys0) =
     [Source ''Mollygram'' Call, Source ''StoriesViewer'' Call,
      Deliver ''b.jpg'' ''Storia 1/1'' ''https://cdninstagram.com/b.jpg'' False]"
  by code_simp



lemma events_all_empty: "events (run env0 all_empty None sys0) =
     [Source ''Mollygram'' Call, Source ''StoriesViewer'' Call, Source ''Instasaved'' Call,
      Source ''IQSaved'' Call]"
  by code_simp

lemma candidates_molly_two_again: "tutti_i_link (run env0 molly_two (Some [''a.jpg'', ''b.jpg'']) sys0) =
     [''https://cdninstagram.com/a.jpg'', ''https://cdninstagram.com/b.jpg'']"
  by code_simp


theorem run_short_circuits_on_first_links_witness:
  "links_molly (sources (run env0 viewer_one None sys0)) = []
   \<and> links_viewer (sources (run env0 viewer_one None sys0)) \<noteq> []
   \<and> events (run env0 viewer_one None sys0) =
       [Source ''Mollygram'' Call, Source ''StoriesViewer'' Call,
        Deliver ''b.jpg'' ''Storia 1/1'' ''https://cdninstagram.com/b.jpg'' False]
   \<and> \<not> attempted ''Instasaved'' (events (run env0 viewer_one None sys0))
   \<and> \<not> attempted ''IQSaved'' (events (run env0 viewer_one None sys0))"
proof -
  have 1: "links_molly (sources (run env0 viewer_one None sys0)) = []" by code_simp
  have 2: "links_viewer (sources (run env0 viewer_one None sys0)) \<noteq> []" by code_simp
  from run_short_circuits_on_first_links [of env0 viewer_one None sys0] 1 2
  have 3: "\<not> attempted ''Instasaved'' (events (run env0 viewer_one None sys0))"
    and 4: "\<not> attempted ''IQSaved'' (events (run env0 viewer_one None sys0))"
    by blast+
  show ?thesis by (intro conjI 1 2 3 4 events_viewer_one)
qed



theorem run_without_new_ids_keeps_ledger_witness:
  "tutti_i_link (run env0 molly_two (Some [''a.jpg'', ''b.jpg'']) sys0) =
     [''https://cdninstagram.com/a.jpg'', ''https://cdninstagram.com/b.jpg'']
   \<and> get_clean_id ''https://cdninstagram.com/a.jpg'' \<in> set (read_history (Some [''a.jpg'', ''b.jpg'']))
   \<and> get_clean_id ''https://cdninstagram.com/b.jpg'' \<in> set (read_history (Some [''a.jpg'', ''b.jpg'']))
   \<and> storie_da_processare (run env0 molly_two (Some [''a.jpg'', ''b.jpg'']) sys0) = []
   \<and> ids_to_add (run env0 molly_two (Some [''a.jpg'', ''b.jpg'']) sys0) = []
   \<and> events (run env0 molly_two (Some [''a.jpg'', ''b.jpg'']) sys0) = [Source ''Mollygram'' Call]
   \<and> history_after (run env0 molly_two (Some [''a.jpg'', ''b.jpg'']) sys0) = Some [''a.jpg'', ''b.jpg'']"
proof -
  let ?r = "run env0 molly_two (Some [''a.jpg'', ''b.jpg'']) sys0"
  have 1: "get_clean_id ''https://cdninstagram.com/a.jpg'' \<in> set (read_history (Some [''a.jpg'', ''b.jpg'']))"
    by code_simp
  have 2: "get_clean_id ''https://cdninstagram.com/b.jpg'' \<in> set (read_history (Some [''a.jpg'', ''b.jpg'']))"
    by code_simp
  have "\<forall>url \<in> set (tutti_i_link ?r).
       get_clean_id url = [] \<or> get_clean_id url \<in> set (read_history (Some [''a.jpg'', ''b.jpg'']))"
    unfolding candidates_molly_two_again using 1 2 by simp
  from run_without_new_ids_keeps_ledger [of env0 molly_two "Some [''a.jpg'', ''b.jpg'']" sys0,
      THEN mp, OF this]
  have 3: "storie_da_processare ?r = []" and 4: "ids_to_add ?r = []"
    and 5: "history_after ?r = Some [''a.jpg'', ''b.jpg'']"
    by blast+
  show ?thesis
    by (intro conjI 1 2 3 4 5 candidates_molly_two_again events_molly_two_again)
qed

section \<open>Source adapters\<close>

text \<open>
  The adapters drive a browser page. What the page does is outside the program, so
  each group of page calls is a function of the browser state \<open>'b\<close> that raises or
  yields what the adapter reads from it:
  \<^item> \<open>goto url timeout\<close>: \<^verbatim>\<open>page.goto\<close>, yielding the status of the response;
  \<^item> \<open>reload\<close>: \<^verbatim>\<open>page.reload\<close>;
  \<^item> \<open>search_user\<close>: filling the search box with the account and clicking the button;
  \<^item> \<open>viewer_wait\<close>: which of the texts or elements StoriesViewer shows after the
    search, or the exception of the last wait;
  \<^item> \<open>insta_hrefs\<close>, \<open>iq_hrefs\<close>, \<open>molly_hrefs\<close>: the \<^verbatim>\<open>href\<close> attributes of the
    elements selected (\<open>None\<close> for an element without one), after the waits and
    scrolling that precede the query;
  \<^item> \<open>viewer_hrefs\<close>: the same for StoriesViewer, together with the exception if
    reading an attribute raised after those that were read;
  \<^item> \<open>molly_scroll\<close>: whether a download button appeared while scrolling, and whether
    the page says that the user was not found.
  Pauses inside the adapters and the performance log are left out.
\<close>

datatype wait_result = Server_unavailable | No_stories | Stories_found | Wait_timeout exn

record 'b page =
  goto :: "string \<Rightarrow> int \<Rightarrow> 'b \<Rightarrow> (exn + nat) \<times> 'b"
  reload :: "'b \<Rightarrow> (exn + unit) \<times> 'b"
  search_user :: "'b \<Rightarrow> (exn + unit) \<times> 'b"
  viewer_wait :: "'b \<Rightarrow> wait_result \<times> 'b"
  viewer_hrefs :: "'b \<Rightarrow> (exn + string option list \<times> exn option) \<times> 'b"
  molly_scroll :: "'b \<Rightarrow> (exn + bool \<times> bool) \<times> 'b"
  molly_hrefs :: "'b \<Rightarrow> (exn + string option list) \<times> 'b"
  insta_hrefs :: "'b \<Rightarrow> (exn + string option list) \<times> 'b"
  iq_hrefs :: "'b \<Rightarrow> (exn + string option list \<times> string option list) \<times> 'b"

text \<open>Recording an outcome and returning it: \<^verbatim>\<open>track_failure(site, status); return ...\<close>.\<close>

definition tracked :: "string \<Rightarrow> outcome \<Rightarrow> 'b sys \<Rightarrow> outcome \<times> 'b sys" where
  "tracked site out s = (out, snd (track_failure site (fst (snd out)) s))"

text \<open>The \<^verbatim>\<open>href\<close> values that are neither missing nor empty.\<close>

definition present :: "string option list \<Rightarrow> string list" where
  "present hrefs = filter (\<lambda>h. h \<noteq> []) (List.map_filter id hrefs)"

subsection \<open>IQSaved\<close>

text \<open>
  \<^verbatim>\<open>check_iqsaved\<close>. Every path records exactly one outcome. \<^verbatim>\<open>list(set(links))\<close>
  has no fixed order; the model keeps first occurrences in order.
\<close>

definition check_iqsaved :: "'b page \<Rightarrow> string \<Rightarrow> 'b sys \<Rightarrow> outcome \<times> 'b sys" where
  "check_iqsaved pg ig_user s =
     (let timeout = get_adaptive_timeout ''IQSaved'' 25000 s in
      case goto pg (''https://iqsaved.com/it/viewer/'' @ ig_user @ ''/'') timeout (engine s) of
        (Inl e, b) \<Rightarrow> tracked ''IQSaved'' ([], ''CRASH'', exn_msg e) (s\<lparr>engine := b\<rparr>)
      | (Inr status, b) \<Rightarrow>
          if status \<noteq> 200
          then tracked ''IQSaved'' ([], ''HTTP_ERROR'', ''Status '' @ show_nat status)
                 (s\<lparr>engine := b\<rparr>)
          else
            (case iq_hrefs pg b of
               (Inl e, b') \<Rightarrow> tracked ''IQSaved'' ([], ''CRASH'', exn_msg e) (s\<lparr>engine := b'\<rparr>)
             | (Inr (buttons, anchors), b') \<Rightarrow>
                 (let links = unique_links {}
                        (filter (contains ''cdn.iqsaved.com'') (present buttons) @ present anchors)
                  in if links \<noteq> []
                     then tracked ''IQSaved'' (links, ''SUCCESS'', []) (s\<lparr>engine := b'\<rparr>)
                     else tracked ''IQSaved''
                            ([], ''NO_LINKS'', ''Sistema cambiato, nessun link estraibile'')
                            (s\<lparr>engine := b'\<rparr>))))"

definition safe_check_iqsaved ::
  "'b page \<Rightarrow> string \<Rightarrow> 'b sys \<Rightarrow> (exn + outcome) \<times> 'b sys" where
  "safe_check_iqsaved pg ig_user s = (case check_iqsaved pg ig_user s of (out, s') \<Rightarrow> (Inr out, s'))"

subsection \<open>Instasaved\<close>

definition check_instasaved :: "'b page \<Rightarrow> string \<Rightarrow> 'b sys \<Rightarrow> outcome \<times> 'b sys" where
  "check_instasaved pg ig_user s =
     (let timeout = get_adaptive_timeout ''Instasaved'' 25000 s in
      case goto pg (''https://instasaved.net/it/save-stories/'' @ ig_user @ ''/'') timeout
             (engine s) of
        (Inl e, b) \<Rightarrow>
          tracked ''Instasaved'' ([], ''CRASH'', ''Errore: '' @ take 150 (exn_msg e))
            (s\<lparr>engine := b\<rparr>)
      | (Inr status, b) \<Rightarrow>
          if status \<noteq> 200
          then tracked ''Instasaved'' ([], ''HTTP_ERROR'', ''Status '' @ show_nat status)
                 (s\<lparr>engine := b\<rparr>)
          else
            (case insta_hrefs pg b of
               (Inl e, b') \<Rightarrow>
                 tracked ''Instasaved'' ([], ''CRASH'', ''Errore: '' @ take 150 (exn_msg e))
                   (s\<lparr>engine := b'\<rparr>)
             | (Inr download_elements, b') \<Rightarrow>
                 if download_elements = []
                 then tracked ''Instasaved''
                        ([], ''NO_LINKS'', ''Nessun link 'download-file' trovato'')
                        (s\<lparr>engine := b'\<rparr>)
                 else
                   (let links = unique_links {}
                          (filter (\<lambda>h. startswith h ''http'') (present download_elements))
                    in if links \<noteq> []
                       then tracked ''Instasaved'' (links, ''SUCCESS'', []) (s\<lparr>engine := b'\<rparr>)
                       else tracked ''Instasaved'' ([], ''NO_LINKS'', []) (s\<lparr>engine := b'\<rparr>))))"

definition safe_check_instasaved ::
  "'b page \<Rightarrow> string \<Rightarrow> 'b sys \<Rightarrow> (exn + outcome) \<times> 'b sys" where
  "safe_check_instasaved pg ig_user s =
     (case check_instasaved pg ig_user s of (out, s') \<Rightarrow> (Inr out, s'))"

subsection \<open>StoriesViewer\<close>

text \<open>
  The link of an anchor of StoriesViewer: its \<^verbatim>\<open>media=\<close> parameter, decoded once, if
  that names \<^verbatim>\<open>cdninstagram.com\<close>.
\<close>

definition viewer_link :: "string \<Rightarrow> string option" where
  "viewer_link raw_url =
     (if contains ''media='' raw_url then
        (case py_split raw_url ''media='' of
           _ # after # _ \<Rightarrow>
             (let clean_url = unquote (hd (py_split after ''&'')) in
              if contains ''cdninstagram.com'' clean_url then Some clean_url else None)
         | _ \<Rightarrow> None)
      else None)"

text \<open>
  The end of \<^verbatim>\<open>check_storiesviewer\<close>, from the query for the anchors on, with the
  status and details that the waits have left. An exception while the attributes are
  read takes the CRASH branch with the links appended so far.
\<close>

definition viewer_collect ::
  "(string \<Rightarrow> string option) \<Rightarrow> 'b page \<Rightarrow> string \<Rightarrow> string \<Rightarrow> 'b \<Rightarrow> 'b sys
     \<Rightarrow> outcome \<times> 'b sys" where
  "viewer_collect b64 pg status error_details b s =
     (case viewer_hrefs pg b of
        (Inl e, b') \<Rightarrow>
          tracked ''StoriesViewer'' ([], ''CRASH'', ''Errore generale: '' @ take 150 (exn_msg e))
            (s\<lparr>engine := b'\<rparr>)
      | (Inr (hrefs, Some e), b') \<Rightarrow>
          tracked ''StoriesViewer''
            (List.map_filter viewer_link (present hrefs), ''CRASH'',
             ''Errore generale: '' @ take 150 (exn_msg e))
            (s\<lparr>engine := b'\<rparr>)
      | (Inr (hrefs, None), b') \<Rightarrow>
          (let links = validate_links b64 (List.map_filter viewer_link (present hrefs))
           in if links \<noteq> []
              then tracked ''StoriesViewer'' (links, ''SUCCESS'', error_details)
                     (s\<lparr>engine := b'\<rparr>)
              else tracked ''StoriesViewer''
                     ([], if status = ''UNKNOWN'' then ''NO_LINKS'' else status, error_details)
                     (s\<lparr>engine := b'\<rparr>)))"

text \<open>
  \<^verbatim>\<open>check_storiesviewer\<close>. Every path records exactly one outcome. A time-out of the
  last wait only sets the status; the links are still collected.
\<close>

definition check_storiesviewer ::
  "(string \<Rightarrow> string option) \<Rightarrow> 'b page \<Rightarrow> 'b sys \<Rightarrow> outcome \<times> 'b sys" where
  "check_storiesviewer b64 pg s =
     (let adjusted_timeout = get_adaptive_timeout ''StoriesViewer'' 25000 s in
      case goto pg ''https://storiesviewer.net/it/'' adjusted_timeout (engine s) of
        (Inl e, b) \<Rightarrow>
          tracked ''StoriesViewer'' ([], ''CRASH'', ''Errore generale: '' @ take 150 (exn_msg e))
            (s\<lparr>engine := b\<rparr>)
      | (Inr response_status, b) \<Rightarrow>
          if response_status \<noteq> 200
          then tracked ''StoriesViewer''
                 ([], ''HTTP_ERROR'', ''Status '' @ show_nat response_status) (s\<lparr>engine := b\<rparr>)
          else
            (case search_user pg b of
               (Inl e, b1) \<Rightarrow>
                 tracked ''StoriesViewer''
                   ([], ''INPUT_ERROR'', ''Input non trovato: '' @ take 100 (exn_msg e))
                   (s\<lparr>engine := b1\<rparr>)
             | (Inr _, b1) \<Rightarrow>
                 (case viewer_wait pg b1 of
                    (Server_unavailable, b2) \<Rightarrow>
                      tracked ''StoriesViewer''
                        ([], ''SERVER_UNAVAILABLE'', ''Server temporaneamente non disponibile'')
                        (s\<lparr>engine := b2\<rparr>)
                  | (No_stories, b2) \<Rightarrow>
                      tracked ''StoriesViewer''
                        ([], ''NO_STORIES'', ''Profilo senza storie o privato'')
                        (s\<lparr>engine := b2\<rparr>)
                  | (Stories_found, b2) \<Rightarrow> viewer_collect b64 pg ''UNKNOWN'' [] b2 s
                  | (Wait_timeout e, b2) \<Rightarrow>
                      viewer_collect b64 pg ''TIMEOUT''
                        (''Timeout caricamento: '' @ take 100 (exn_msg e)) b2 s)))"

text \<open>
  \<^verbatim>\<open>retry_storiesviewer(page, max_retries)\<close>: attempts \<open>0, \<dots>, max_retries\<close>. An attempt
  with links or with NO_STORIES or SERVER_UNAVAILABLE is returned. Otherwise the page is
  reloaded before the next attempt; if the reload raises, the handler reloads once more,
  and an exception of that second reload leaves the function. The check itself does not
  raise, so the handler's RETRY_FAILED branch is not reached.
\<close>

function retry_storiesviewer ::
  "(string \<Rightarrow> string option) \<Rightarrow> 'b page \<Rightarrow> nat \<Rightarrow> nat \<Rightarrow> 'b sys
     \<Rightarrow> (exn + outcome) \<times> 'b sys" where
  "retry_storiesviewer b64 pg max_retries attempt s =
     (if attempt > max_retries
      then (Inr ([], ''ALL_RETRIES_FAILED'', ''Tutti i tentativi falliti''), s)
      else
        (case check_storiesviewer b64 pg s of
           ((links, status, error_details), s1) \<Rightarrow>
             if links \<noteq> [] \<or> status \<in> set [''NO_STORIES'', ''SERVER_UNAVAILABLE'']
             then (Inr (links, status, error_details), s1)
             else if attempt < max_retries then
               (case reload pg (engine s1) of
                  (Inr _, b) \<Rightarrow>
                    retry_storiesviewer b64 pg max_retries (Suc attempt) (s1\<lparr>engine := b\<rparr>)
                | (Inl e, b) \<Rightarrow>
                    (case reload pg b of
                       (Inr _, b') \<Rightarrow>
                         retry_storiesviewer b64 pg max_retries (Suc attempt)
                           (s1\<lparr>engine := b'\<rparr>)
                     | (Inl e', b') \<Rightarrow> (Inl e', s1\<lparr>engine := b'\<rparr>)))
             else retry_storiesviewer b64 pg max_retries (Suc attempt) s1))"
  by pat_completeness auto
termination
  by (relation "measure (\<lambda>(b64, pg, max_retries, attempt, s). Suc max_retries - attempt)") auto

declare retry_storiesviewer.simps [simp del]

definition safe_check_storiesviewer ::
  "(string \<Rightarrow> string option) \<Rightarrow> 'b page \<Rightarrow> 'b sys \<Rightarrow> (exn + outcome) \<times> 'b sys" where
  "safe_check_storiesviewer b64 pg s =
     (case retry_storiesviewer b64 pg 3 0 s of
        (Inl e, s') \<Rightarrow>
          (Inr ([], ''FATAL_ERROR'', ''Crash completo: '' @ take 100 (exn_msg e)), s')
      | (Inr out, s') \<Rightarrow> (Inr out, s'))"

subsection \<open>Mollygram\<close>

text \<open>
  \<^verbatim>\<open>decode_mollygram_url\<close>: the \<^verbatim>\<open>media\<close> parameter as \<^verbatim>\<open>parse_qs\<close> gives it, decoded
  twice more, and a third time if a \<^verbatim>\<open>%\<close> is left; \<open>None\<close> without the parameter or on
  an exception.
\<close>

definition decode_mollygram_url :: "string \<Rightarrow> string option" where
  "decode_mollygram_url proxy_url =
     (case urlparse proxy_url of
        None \<Rightarrow> None
      | Some parsed \<Rightarrow>
          (case qs_get ''media'' (query parsed) of
             None \<Rightarrow> None
           | Some media_param \<Rightarrow>
               (let final_url = unquote (unquote media_param)
                in Some (if CHR ''%'' \<in> set final_url then unquote final_url else final_url))))"

text \<open>
  The proxy links among the \<^verbatim>\<open>href\<close> values of the page (\<open>None\<close> also for an element
  whose reading raised), made absolute, without repetitions.
\<close>

definition molly_proxy_urls :: "string option list \<Rightarrow> string list" where
  "molly_proxy_urls hrefs =
     unique_links {}
       (map (\<lambda>href. if startswith href ''/'' then ''https://anon-viewer.com'' @ href
                     else if \<not> startswith href ''http'' then ''https://'' @ href
                     else href)
          (filter (contains ''anon-viewer.com/media.php'') (present hrefs)))"

text \<open>
  \<^verbatim>\<open>check_mollygram\<close>: three attempts. A failed navigation or search, an unexpected
  exception, and a page without proxy links lead to the next attempt without recording
  anything; only the attempt that finds proxy links records an outcome, SUCCESS. The user
  not being found ends the last attempt with NO_STORIES, also unrecorded.
\<close>

function check_mollygram :: "'b page \<Rightarrow> nat \<Rightarrow> 'b sys \<Rightarrow> outcome \<times> 'b sys" where
  "check_mollygram pg attempt s =
     (if attempt \<ge> 3 then (([], ''NO_LINKS'', ''Nessun link trovato dopo i tentativi''), s)
      else
        (let timeout = get_adaptive_timeout ''Mollygram'' 30000 s in
         case goto pg ''https://mollygram.com/it'' timeout (engine s) of
           (Inl e, b) \<Rightarrow> check_mollygram pg (Suc attempt) (s\<lparr>engine := b\<rparr>)
         | (Inr _, b) \<Rightarrow>
             (case search_user pg b of
                (Inl e, b1) \<Rightarrow> check_mollygram pg (Suc attempt) (s\<lparr>engine := b1\<rparr>)
              | (Inr _, b1) \<Rightarrow>
                  (case molly_scroll pg b1 of
                     (Inl e, b2) \<Rightarrow> check_mollygram pg (Suc attempt) (s\<lparr>engine := b2\<rparr>)
                   | (Inr (found_any, not_found), b2) \<Rightarrow>
                       if \<not> found_any \<and> not_found then
                         (if attempt = 2
                          then (([], ''NO_STORIES'', ''User not found''), s\<lparr>engine := b2\<rparr>)
                          else check_mollygram pg (Suc attempt) (s\<lparr>engine := b2\<rparr>))
                       else
                         (case molly_hrefs pg b2 of
                            (Inl e, b3) \<Rightarrow> check_mollygram pg (Suc attempt) (s\<lparr>engine := b3\<rparr>)
                          | (Inr hrefs, b3) \<Rightarrow>
                              (let proxy_urls = molly_proxy_urls hrefs in
                               if proxy_urls \<noteq> [] then
                                 tracked ''Mollygram''
                                   (filter (\<lambda>d. d \<noteq> [])
                                      (List.map_filter decode_mollygram_url proxy_urls),
                                    ''SUCCESS'', [])
                                   (s\<lparr>engine := b3\<rparr>)
                               else check_mollygram pg (Suc attempt) (s\<lparr>engine := b3\<rparr>)))))))"
  by pat_completeness auto
termination
  by (relation "measure (\<lambda>(pg, attempt, s). 3 - attempt)") auto

declare check_mollygram.simps [simp del]

definition safe_check_mollygram :: "'b page \<Rightarrow> 'b sys \<Rightarrow> (exn + outcome) \<times> 'b sys" where
  "safe_check_mollygram pg s = (case check_mollygram pg 0 s of (out, s') \<Rightarrow> (Inr out, s'))"

subsection \<open>The run with the four adapters\<close>

definition adapters_of ::
  "(string \<Rightarrow> string option) \<Rightarrow> 'b page \<Rightarrow> string \<Rightarrow> 'b adapters" where
  "adapters_of b64 pg ig_user =
     \<lparr>mollygram = safe_check_mollygram pg,
      storiesviewer = safe_check_storiesviewer b64 pg,
      instasaved = safe_check_instasaved pg ig_user,
      iqsaved = safe_check_iqsaved pg ig_user\<rparr>"

text \<open>A browser without network: every navigation raises, a reload does nothing.\<close>

definition offline :: "unit page" where
  "offline =
     \<lparr>goto = (\<lambda>url timeout b. (Inl (Exn ''Error'' ''net::ERR_INTERNET_DISCONNECTED''), b)),
      reload = (\<lambda>b. (Inr (), b)),
      search_user = (\<lambda>b. (Inr (), b)),
      viewer_wait = (\<lambda>b. (Stories_found, b)),
      viewer_hrefs = (\<lambda>b. (Inr ([], None), b)),
      molly_scroll = (\<lambda>b. (Inr (False, False), b)),
      molly_hrefs = (\<lambda>b. (Inr [], b)),
      insta_hrefs = (\<lambda>b. (Inr [], b)),
      iq_hrefs = (\<lambda>b. (Inr ([], []), b))\<rparr>"

definition offline_run :: "unit run_result" where
  "offline_run = run env0 (adapters_of (b64decode env0) offline ''user'') None sys0"

section \<open>Run statistics: properties\<close>

text \<open>
  \<open>records n k s s'\<close>: from \<open>s\<close> to \<open>s'\<close> a readable tracker file stays readable, and
  \<^verbatim>\<open>total_runs\<close> has grown by \<open>n\<close> and \<^verbatim>\<open>successful_runs\<close> by \<open>k\<close>.
\<close>

definition records :: "nat \<Rightarrow> nat \<Rightarrow> 'b sys \<Rightarrow> 'b sys \<Rightarrow> bool" where
  "records n k s s' \<longleftrightarrow>
     (failure_file s \<noteq> Corrupt \<longrightarrow>
        failure_file s' \<noteq> Corrupt
        \<and> stats_total s' = stats_total s + int n
        \<and> stats_successful s' = stats_successful s + int k)"

lemma records_refl [simp]: "records 0 0 s s"
  by (simp add: records_def)

lemma records_trans:
  "records n k s s' \<Longrightarrow> records m j s' s'' \<Longrightarrow> records (n + m) (k + j) s s''"
  by (simp add: records_def)

lemma records_engine [simp]:
  "records n k (s\<lparr>engine := b\<rparr>) s' \<longleftrightarrow> records n k s s'"
  "records n k s (s'\<lparr>engine := b\<rparr>) \<longleftrightarrow> records n k s s'"
  by (simp_all add: records_def stats_total_def stats_successful_def)

lemma track_failure_stats:
  assumes "failure_file s \<noteq> Corrupt"
  shows "stats_total (snd (track_failure site status s)) = stats_total s + 1"
    and "stats_successful (snd (track_failure site status s)) =
           stats_successful s + (if status = ''SUCCESS'' then 1 else 0)"
  using assms
  by (cases "failure_file s";
      simp add: track_failure_def stats_total_def stats_successful_def Let_def
        total_runs_track_update successful_runs_track_update new_tracker_def)+

lemma tracked_records:
  "status \<noteq> ''SUCCESS'' \<Longrightarrow>
     records (Suc 0) 0 s (snd (tracked site (links, status, err) (s\<lparr>engine := b\<rparr>)))"
  "records (Suc 0) (Suc 0) s (snd (tracked site (links, ''SUCCESS'', err) (s\<lparr>engine := b\<rparr>)))"
  by (simp_all add: records_def tracked_def track_failure_stats track_failure_readable
        stats_total_def [of "s\<lparr>engine := b\<rparr>"] stats_successful_def [of "s\<lparr>engine := b\<rparr>"]
        stats_total_def [of s] stats_successful_def [of s])

lemma fst_tracked: "fst (tracked site out s) = out"
  by (simp add: tracked_def)

text \<open>
  Each check of IQSaved, Instasaved and StoriesViewer records exactly one outcome, the
  one that it returns; a SUCCESS comes with links.
\<close>

lemma check_iqsaved_records:
  "records (Suc 0) (if fst (snd (fst (check_iqsaved pg u s))) = ''SUCCESS'' then 1 else 0)
     s (snd (check_iqsaved pg u s))"
  unfolding check_iqsaved_def Let_def
  by (simp split: prod.split sum.split add: tracked_records fst_tracked)

lemma check_iqsaved_success:
  "fst (snd (fst (check_iqsaved pg u s))) = ''SUCCESS'' \<Longrightarrow> fst (fst (check_iqsaved pg u s)) \<noteq> []"
  unfolding check_iqsaved_def Let_def
  by (auto split: prod.splits sum.splits if_splits simp add: fst_tracked)

lemma check_instasaved_records:
  "records (Suc 0) (if fst (snd (fst (check_instasaved pg u s))) = ''SUCCESS'' then 1 else 0)
     s (snd (check_instasaved pg u s))"
  unfolding check_instasaved_def Let_def
  by (simp split: prod.split sum.split add: tracked_records fst_tracked)

lemma check_instasaved_success:
  "fst (snd (fst (check_instasaved pg u s))) = ''SUCCESS'' \<Longrightarrow>
     fst (fst (check_instasaved pg u s)) \<noteq> []"
  unfolding check_instasaved_def Let_def
  by (auto split: prod.splits sum.splits if_splits simp add: fst_tracked)

lemma viewer_collect_records:
  "records (Suc 0)
     (if fst (snd (fst (viewer_collect b64 pg st err b s))) = ''SUCCESS'' then 1 else 0)
     s (snd (viewer_collect b64 pg st err b s))"
  unfolding viewer_collect_def Let_def
  by (simp split: prod.split sum.split option.split add: tracked_records fst_tracked)

lemma viewer_collect_cases:
  "fst (snd (fst (viewer_collect b64 pg st err b s))) = ''SUCCESS'' \<Longrightarrow>
     records (Suc 0) (Suc 0) s (snd (viewer_collect b64 pg st err b s))"
  "fst (snd (fst (viewer_collect b64 pg st err b s))) \<noteq> ''SUCCESS'' \<Longrightarrow>
     records (Suc 0) 0 s (snd (viewer_collect b64 pg st err b s))"
  using viewer_collect_records [of b64 pg st err b s] by simp_all

lemma viewer_collect_success:
  "st \<noteq> ''SUCCESS'' \<Longrightarrow> fst (snd (fst (viewer_collect b64 pg st err b s))) = ''SUCCESS'' \<Longrightarrow>
     fst (fst (viewer_collect b64 pg st err b s)) \<noteq> []"
  unfolding viewer_collect_def Let_def
  by (auto split: prod.splits sum.splits option.splits if_splits simp add: fst_tracked)

lemma check_storiesviewer_records:
  "records (Suc 0) (if fst (snd (fst (check_storiesviewer b64 pg s))) = ''SUCCESS'' then 1 else 0)
     s (snd (check_storiesviewer b64 pg s))"
  unfolding check_storiesviewer_def Let_def
  by (simp split: prod.split sum.split wait_result.split
        add: tracked_records fst_tracked viewer_collect_cases)

lemma check_storiesviewer_success:
  "fst (snd (fst (check_storiesviewer b64 pg s))) = ''SUCCESS'' \<Longrightarrow>
     fst (fst (check_storiesviewer b64 pg s)) \<noteq> []"
  unfolding check_storiesviewer_def Let_def
  by (auto split: prod.splits sum.splits wait_result.splits if_splits
        simp add: fst_tracked viewer_collect_success)

text \<open>
  StoriesViewer with its retries records between one and \<open>max_retries + 1\<close> outcomes,
  at most one of them a SUCCESS, which is then returned with its links.
\<close>

lemma retry_storiesviewer_records:
  assumes "retry_storiesviewer b64 pg m a s = (r, s')"
  shows "\<exists>n k. records n k s s' \<and> n \<le> Suc m - a \<and> (a \<le> m \<longrightarrow> 1 \<le> n) \<and> k \<le> 1
           \<and> (k = 1 \<longrightarrow> (\<exists>links st err. r = Inr (links, st, err) \<and> links \<noteq> []))"
  using assms
proof (induction d \<equiv> "Suc m - a" arbitrary: a s r s')
  case 0
  then have "a > m" by simp
  with 0 have "s' = s" by (simp add: retry_storiesviewer.simps [of b64 pg m a s])
  with \<open>a > m\<close> show ?case by (intro exI [of _ 0]) simp
next
  case (Suc d)
  then have am: "a \<le> m" and d: "d = Suc m - Suc a" by simp_all
  obtain links status err s1 where
    c: "check_storiesviewer b64 pg s = ((links, status, err), s1)"
    by (cases "check_storiesviewer b64 pg s"; cases "fst (check_storiesviewer b64 pg s)") auto
  have succ: "links \<noteq> []" if "status = ''SUCCESS''"
    using check_storiesviewer_success [of b64 pg s] c that by simp
  have rec1: "records (Suc 0) (if status = ''SUCCESS'' then 1 else 0) s s1"
    using check_storiesviewer_records [of b64 pg s] c by simp
  show ?case
  proof (cases "links \<noteq> [] \<or> status \<in> set [''NO_STORIES'', ''SERVER_UNAVAILABLE'']")
    case True
    with Suc.prems am c have r: "r = Inr (links, status, err)" and s': "s' = s1"
      by (simp_all add: retry_storiesviewer.simps [of b64 pg m a s])
    show ?thesis
    proof (rule exI [of _ "Suc 0"], rule exI [of _ "if status = ''SUCCESS'' then 1 else 0"],
        intro conjI)
      show "records (Suc 0) (if status = ''SUCCESS'' then 1 else 0) s s'"
        using rec1 s' by simp
      show "(if status = ''SUCCESS'' then 1 else 0) = (1::nat) \<longrightarrow>
              (\<exists>links st err. r = Inr (links, st, err) \<and> links \<noteq> [])"
        using r succ by (simp split: if_splits)
    qed (use am in simp_all)
  next
    case False
    then have "status \<noteq> ''SUCCESS''" using succ by blast
    with rec1 have rec0: "records (Suc 0) 0 s s1" by simp
    have step: "\<exists>n k. records n k s s' \<and> n \<le> Suc m - a \<and> (a \<le> m \<longrightarrow> 1 \<le> n) \<and> k \<le> 1
           \<and> (k = 1 \<longrightarrow> (\<exists>links st err. r = Inr (links, st, err) \<and> links \<noteq> []))"
      if "retry_storiesviewer b64 pg m (Suc a) t = (r, s')"
        and t: "failure_file t = failure_file s1" for t
    proof -
      from Suc.hyps(1) [OF d that(1)] obtain n k where
        nk: "records n k t s'" "n \<le> Suc m - Suc a" "k \<le> 1"
          "k = 1 \<longrightarrow> (\<exists>links st err. r = Inr (links, st, err) \<and> links \<noteq> [])"
        by blast
      have "records n k s1 s'"
        using nk(1) t by (simp add: records_def stats_total_def stats_successful_def)
      from records_trans [OF rec0 this] have "records (Suc n) k s s'" by simp
      with nk am show ?thesis
        by (intro exI [of _ "Suc n"] exI [of _ k] conjI) simp_all
    qed
    have stop: "\<exists>n k. records n k s s' \<and> n \<le> Suc m - a \<and> (a \<le> m \<longrightarrow> 1 \<le> n) \<and> k \<le> 1
           \<and> (k = 1 \<longrightarrow> (\<exists>links st err. r = Inr (links, st, err) \<and> links \<noteq> []))"
      if "s' = s1\<lparr>engine := b\<rparr>" for b
      using rec0 that am by (intro exI [of _ "Suc 0"] exI [of _ 0] conjI) simp_all
    have "(\<exists>t. failure_file t = failure_file s1
                \<and> retry_storiesviewer b64 pg m (Suc a) t = (r, s'))
          \<or> (\<exists>b. s' = s1\<lparr>engine := b\<rparr>)"
      using Suc.prems am c False
      by (auto simp add: retry_storiesviewer.simps [of b64 pg m a s]
            split: if_splits prod.splits sum.splits)
    then show ?thesis
    proof (elim disjE exE conjE)
      fix t assume "failure_file t = failure_file s1"
        and "retry_storiesviewer b64 pg m (Suc a) t = (r, s')"
      then show ?thesis by (rule step [rotated])
    next
      fix b assume "s' = s1\<lparr>engine := b\<rparr>"
      then show ?thesis by (rule stop)
    qed
  qed
qed

text \<open>Mollygram records at most one outcome, a SUCCESS, and always when it returns links.\<close>

lemma check_mollygram_records:
  assumes "check_mollygram pg a s = (out, s')"
  shows "\<exists>n. n \<le> Suc 0 \<and> records n n s s' \<and> (fst out \<noteq> [] \<longrightarrow> n = Suc 0)"
  using assms
proof (induction d \<equiv> "3 - a" arbitrary: a s out s')
  case 0
  then have "a \<ge> 3" by simp
  with 0 have "s' = s" "fst out = []"
    by (auto simp add: check_mollygram.simps [of pg a s])
  then show ?case by (intro exI [of _ 0]) simp
next
  case (Suc d)
  then have a: "\<not> a \<ge> 3" and d: "d = 3 - Suc a" by simp_all
  have step: "\<exists>n. n \<le> Suc 0 \<and> records n n s s' \<and> (fst out \<noteq> [] \<longrightarrow> n = Suc 0)"
    if "check_mollygram pg a' (s\<lparr>engine := b\<rparr>) = (out, s')" "a' = Suc a" for a' b
    using Suc.hyps(1) [OF d, of "s\<lparr>engine := b\<rparr>" out s'] that by simp
  have none: "\<exists>n. n \<le> Suc 0 \<and> records n n s s' \<and> (fst out \<noteq> [] \<longrightarrow> n = Suc 0)"
    if "s' = s\<lparr>engine := b\<rparr>" "fst out = []" for b
    using that by (intro exI [of _ 0]) simp
  have one: "records (Suc 0) (Suc 0) s
      (snd (track_failure ''Mollygram'' ''SUCCESS'' (s\<lparr>engine := b\<rparr>)))" for b
    using tracked_records(2) [of s "''Mollygram''" "[]" "[]" b] by (simp add: tracked_def)
  from Suc.prems a show ?case
    by (auto simp add: check_mollygram.simps [of pg a s] Let_def tracked_def
          split: if_splits prod.splits sum.splits intro: step none)
       (rule exI [of _ "Suc 0"], simp add: one)+
qed

text \<open>The four wrappers return; the retry executor calls each of them once.\<close>

lemma attempt_source_Inr:
  "adapter s = (Inr (links, status, err), s') \<Longrightarrow>
     attempt_source name adapter s = ((links, status), s', [Source name Call])"
  unfolding attempt_source_def retry_with_backoff_def
  by (subst retry_loop.simps) simp

lemma safe_check_mollygram_records:
  obtains links status err s' n where
    "safe_check_mollygram pg s = (Inr (links, status, err), s')"
    "n \<le> Suc 0" "records n n s s'" "links \<noteq> [] \<longrightarrow> n = Suc 0"
proof -
  obtain links status err s' where c: "check_mollygram pg 0 s = ((links, status, err), s')"
    by (cases "check_mollygram pg 0 s"; cases "fst (check_mollygram pg 0 s)") auto
  from check_mollygram_records [OF c] obtain n where
    "n \<le> Suc 0" "records n n s s'" "links \<noteq> [] \<longrightarrow> n = Suc 0" by auto
  moreover have "safe_check_mollygram pg s = (Inr (links, status, err), s')"
    using c by (simp add: safe_check_mollygram_def)
  ultimately show ?thesis using that by blast
qed

lemma safe_check_storiesviewer_records:
  obtains links status err s' n k where
    "safe_check_storiesviewer b64 pg s = (Inr (links, status, err), s')"
    "records n k s s'" "1 \<le> n" "n \<le> 4" "k \<le> 1" "k = 1 \<longrightarrow> links \<noteq> []"
proof -
  obtain r s' where c: "retry_storiesviewer b64 pg 3 0 s = (r, s')"
    by (cases "retry_storiesviewer b64 pg 3 0 s")
  from retry_storiesviewer_records [OF c] obtain n k where
    nk: "records n k s s'" "1 \<le> n" "n \<le> 4" "k \<le> 1"
      "k = 1 \<longrightarrow> (\<exists>links st err. r = Inr (links, st, err) \<and> links \<noteq> [])"
    by auto
  obtain links status err where
    s: "safe_check_storiesviewer b64 pg s = (Inr (links, status, err), s')"
      and l: "k = 1 \<longrightarrow> links \<noteq> []"
  proof (cases r)
    case (Inl e)
    with c nk(5) show ?thesis
      by (intro that [of "[]"]) (auto simp add: safe_check_storiesviewer_def)
  next
    case (Inr out)
    obtain links status err where "out = (links, status, err)" by (cases out)
    with Inr c nk(5) show ?thesis
      by (intro that [of links status err]) (auto simp add: safe_check_storiesviewer_def)
  qed
  from s nk(1-4) l show ?thesis using that by blast
qed

lemma safe_check_instasaved_records:
  obtains links status err s' k where
    "safe_check_instasaved pg u s = (Inr (links, status, err), s')"
    "records (Suc 0) k s s'" "k \<le> 1" "k = 1 \<longrightarrow> links \<noteq> []"
proof -
  obtain links status err s' where c: "check_instasaved pg u s = ((links, status, err), s')"
    by (cases "check_instasaved pg u s"; cases "fst (check_instasaved pg u s)") auto
  have "safe_check_instasaved pg u s = (Inr (links, status, err), s')"
    using c by (simp add: safe_check_instasaved_def)
  moreover have "records (Suc 0) (if status = ''SUCCESS'' then 1 else 0) s s'"
    using check_instasaved_records [of pg u s] c by simp
  moreover have "(if status = ''SUCCESS'' then 1 else 0) \<le> (1::nat)" by simp
  moreover have "(if status = ''SUCCESS'' then 1 else 0) = (1::nat) \<longrightarrow> links \<noteq> []"
    using check_instasaved_success [of pg u s] c by simp
  ultimately show ?thesis using that by blast
qed

lemma safe_check_iqsaved_records:
  obtains links status err s' k where
    "safe_check_iqsaved pg u s = (Inr (links, status, err), s')"
    "records (Suc 0) k s s'" "k \<le> 1"
proof -
  obtain links status err s' where c: "check_iqsaved pg u s = ((links, status, err), s')"
    by (cases "check_iqsaved pg u s"; cases "fst (check_iqsaved pg u s)") auto
  have "safe_check_iqsaved pg u s = (Inr (links, status, err), s')"
    using c by (simp add: safe_check_iqsaved_def)
  moreover have "records (Suc 0) (if status = ''SUCCESS'' then 1 else 0) s s'"
    using check_iqsaved_records [of pg u s] c by simp
  moreover have "(if status = ''SUCCESS'' then 1 else 0) \<le> (1::nat)" by simp
  ultimately show ?thesis using that by blast
qed

text \<open>
  A run records between one and seven outcomes: Mollygram at most one, StoriesViewer up
  to four, Instasaved and IQSaved one each; at most two of them are a SUCCESS.
\<close>

lemma run_sources_records:
  assumes "run_sources (adapters_of b64 pg u) s = (src, s', evs)"
  shows "\<exists>n k. records n k s s' \<and> 1 \<le> n \<and> n \<le> 7 \<and> k \<le> 2"
proof -
  obtain lm stm em s1 n1 where m: "safe_check_mollygram pg s = (Inr (lm, stm, em), s1)"
    and m1: "n1 \<le> Suc 0" "records n1 n1 s s1" "lm \<noteq> [] \<longrightarrow> n1 = Suc 0"
    by (rule safe_check_mollygram_records)
  obtain lv stv ev s2 n2 k2 where
    v: "safe_check_storiesviewer b64 pg s1 = (Inr (lv, stv, ev), s2)"
    and v1: "records n2 k2 s1 s2" "1 \<le> n2" "n2 \<le> 4" "k2 \<le> 1" "k2 = 1 \<longrightarrow> lv \<noteq> []"
    by (rule safe_check_storiesviewer_records)
  obtain li sti ei s3 k3 where
    i: "safe_check_instasaved pg u s2 = (Inr (li, sti, ei), s3)"
    and i1: "records (Suc 0) k3 s2 s3" "k3 \<le> 1" "k3 = 1 \<longrightarrow> li \<noteq> []"
    by (rule safe_check_instasaved_records)
  obtain lq stq eq s4 k4 where
    q: "safe_check_iqsaved pg u s3 = (Inr (lq, stq, eq), s4)"
    and q1: "records (Suc 0) k4 s3 s4" "k4 \<le> 1"
    by (rule safe_check_iqsaved_records)
  note a = attempt_source_Inr [where adapter = "safe_check_mollygram pg", OF m]
    attempt_source_Inr [where adapter = "safe_check_storiesviewer b64 pg", OF v]
    attempt_source_Inr [where adapter = "safe_check_instasaved pg u", OF i]
    attempt_source_Inr [where adapter = "safe_check_iqsaved pg u", OF q]
  have s': "s' = (if lm \<noteq> [] then s1 else if lv \<noteq> [] then s2 else if li \<noteq> [] then s3 else s4)"
    using assms by (auto simp add: run_sources_def adapters_of_def a)
  note r12 = records_trans [OF m1(2) v1(1)]
  note r13 = records_trans [OF r12 i1(1)]
  note r14 = records_trans [OF r13 q1(1)]
  consider "lm \<noteq> []" | "lm = []" "lv \<noteq> []" | "lm = []" "lv = []" "li \<noteq> []"
    | "lm = []" "lv = []" "li = []" by blast
  then show ?thesis
  proof cases
    case 1
    with m1 s' show ?thesis
      by (intro exI [of _ n1] conjI) simp_all
  next
    case 2
    with r12 s' m1(1) v1 show ?thesis
      by (intro exI [of _ "n1 + n2"] exI [of _ "n1 + k2"] conjI) simp_all
  next
    case 3
    with v1(5) have "k2 = 0" using v1(4) by (cases "k2 = 1") simp_all
    with 3 r13 s' m1(1) v1 i1 show ?thesis
      by (intro exI [of _ "n1 + n2 + Suc 0"] exI [of _ "n1 + k2 + k3"] conjI) simp_all
  next
    case 4
    with v1(5) have "k2 = 0" using v1(4) by (cases "k2 = 1") simp_all
    moreover from 4 i1(3) have "k3 = 0" using i1(2) by (cases "k3 = 1") simp_all
    ultimately show ?thesis
      using 4 r14 s' m1(1) v1 i1 q1
      by (intro exI [of _ "n1 + n2 + Suc 0 + Suc 0"] exI [of _ "n1 + k2 + k3 + k4"] conjI)
         simp_all
  qed
qed

text \<open>The orchestrator itself leaves the tracker file to the adapters.\<close>

lemma retry_loop_failure_file:
  assumes "\<And>t. failure_file (snd (func t)) = failure_file t"
  shows "failure_file (fst (snd (retry_loop func N a s))) = failure_file s"
  using assms
proof (induction func N a s rule: retry_loop.induct)
  case (1 func N a s)
  obtain r s' where f: "func s = (r, s')" by (cases "func s")
  have ff: "failure_file s' = failure_file s"
    using "1.prems" [of s] f by simp
  show ?case
  proof (cases "N < int a")
    case True
    then show ?thesis by (subst retry_loop.simps) simp
  next
    case nlt: False
    show ?thesis
    proof (cases r)
      case (Inr v)
      with f ff nlt show ?thesis by (subst retry_loop.simps) simp
    next
      case (Inl e)
      show ?thesis
      proof (cases "int a = N")
        case True
        with f ff Inl show ?thesis by (subst retry_loop.simps) simp
      next
        case False
        from "1.IH" [OF nlt f [symmetric] Inl False "1.prems"]
        have "failure_file (fst (snd (retry_loop func N (Suc a) s'))) = failure_file s'" .
        with f ff Inl False nlt show ?thesis
          by (subst retry_loop.simps) (simp add: split_def)
      qed
    qed
  qed
qed

lemma attempt_source_failure_file:
  assumes "\<And>t. failure_file (snd (f t)) = failure_file t"
  shows "failure_file (fst (snd (attempt_source name f s))) = failure_file s"
proof -
  have "fst (snd (attempt_source name f s)) = fst (snd (retry_loop f 1 0 s))"
    by (simp add: attempt_source_def retry_with_backoff_def
          split: prod.splits sum.splits option.splits)
  then show ?thesis
    using retry_loop_failure_file [of f 1 0 s] assms by simp
qed

lemma run_sources_failure_file:
  assumes "\<And>t. failure_file (snd (mollygram ad t)) = failure_file t"
    and "\<And>t. failure_file (snd (storiesviewer ad t)) = failure_file t"
    and "\<And>t. failure_file (snd (instasaved ad t)) = failure_file t"
    and "\<And>t. failure_file (snd (iqsaved ad t)) = failure_file t"
  shows "failure_file (fst (snd (run_sources ad s))) = failure_file s"
proof -
  obtain r1 s1 e1 where a1: "attempt_source ''Mollygram'' (mollygram ad) s = (r1, s1, e1)"
    by (cases "attempt_source ''Mollygram'' (mollygram ad) s")
  obtain r2 s2 e2 where
    a2: "attempt_source ''StoriesViewer'' (storiesviewer ad) s1 = (r2, s2, e2)"
    by (cases "attempt_source ''StoriesViewer'' (storiesviewer ad) s1")
  have f1: "failure_file s1 = failure_file s"
    using attempt_source_failure_file [of "mollygram ad" "''Mollygram''" s] assms(1) a1
    by simp
  have f2: "failure_file s2 = failure_file s1"
    using attempt_source_failure_file [of "storiesviewer ad" "''StoriesViewer''" s1] assms(2) a2
    by simp
  have f3: "failure_file (fst (snd (attempt_source ''Instasaved'' (instasaved ad) t))) =
      failure_file t" for t
    using attempt_source_failure_file [of "instasaved ad"] assms(3) by simp
  have f4: "failure_file (fst (snd (attempt_source ''IQSaved'' (iqsaved ad) t))) =
      failure_file t" for t
    using attempt_source_failure_file [of "iqsaved ad"] assms(4) by simp
  show ?thesis
    using f1 f2 f3 f4
    by (simp add: run_sources_def a1 a2 Let_def split_def)
qed

text \<open>
  Claim C9, amended. The counter \<^verbatim>\<open>total_runs\<close> does not count runs of the orchestrator.
  It counts recorded outcomes: every call of \<^verbatim>\<open>track_failure\<close> on a readable tracker
  file adds one to it, and one to \<^verbatim>\<open>successful_runs\<close> exactly when the status is
  SUCCESS. The orchestrator changes the file only through its adapters: with adapters
  that leave the file alone, the run leaves it alone. With the program's four adapters a
  run adds between 1 and 7 to \<^verbatim>\<open>total_runs\<close> and between 0 and 2 to
  \<^verbatim>\<open>successful_runs\<close>.
\<close>

theorem run_counts_recorded_outcomes:
  "(failure_file s \<noteq> Corrupt \<longrightarrow>
      stats_total (snd (track_failure site status s)) = stats_total s + 1
    \<and> stats_successful (snd (track_failure site status s)) =
        stats_successful s + (if status = ''SUCCESS'' then 1 else 0))
   \<and> ((\<forall>t. failure_file (snd (mollygram ad t)) = failure_file t)
        \<and> (\<forall>t. failure_file (snd (storiesviewer ad t)) = failure_file t)
        \<and> (\<forall>t. failure_file (snd (instasaved ad t)) = failure_file t)
        \<and> (\<forall>t. failure_file (snd (iqsaved ad t)) = failure_file t) \<longrightarrow>
      failure_file (sys_after (run e ad h s)) = failure_file s)
   \<and> (failure_file s \<noteq> Corrupt \<longrightarrow>
      (let s' = sys_after (run e (adapters_of (b64decode e) pg ig_user) h s) in
       stats_total s + 1 \<le> stats_total s' \<and> stats_total s' \<le> stats_total s + 7
       \<and> stats_successful s \<le> stats_successful s'
       \<and> stats_successful s' \<le> stats_successful s + 2))"
proof (intro conjI impI)
  assume "failure_file s \<noteq> Corrupt"
  then show "stats_total (snd (track_failure site status s)) = stats_total s + 1"
    and "stats_successful (snd (track_failure site status s)) =
        stats_successful s + (if status = ''SUCCESS'' then 1 else 0)"
    by (rule track_failure_stats)+
next
  assume a: "(\<forall>t. failure_file (snd (mollygram ad t)) = failure_file t)
        \<and> (\<forall>t. failure_file (snd (storiesviewer ad t)) = failure_file t)
        \<and> (\<forall>t. failure_file (snd (instasaved ad t)) = failure_file t)
        \<and> (\<forall>t. failure_file (snd (iqsaved ad t)) = failure_file t)"
  obtain src s1 evs where rs: "run_sources ad s = (src, s1, evs)"
    by (cases "run_sources ad s")
  have "failure_file (fst (snd (run_sources ad s))) = failure_file s"
    using a by (intro run_sources_failure_file) simp_all
  then show "failure_file (sys_after (run e ad h s)) = failure_file s"
    using rs by (simp add: run_fields(2) [OF rs])
next
  assume ok: "failure_file s \<noteq> Corrupt"
  obtain src s1 evs where
    rs: "run_sources (adapters_of (b64decode e) pg ig_user) s = (src, s1, evs)"
    by (cases "run_sources (adapters_of (b64decode e) pg ig_user) s")
  from run_sources_records [OF rs] obtain n k where
    "records n k s s1" "1 \<le> n" "n \<le> 7" "k \<le> 2" by blast
  with ok have "stats_total s + 1 \<le> stats_total s1 \<and> stats_total s1 \<le> stats_total s + 7
       \<and> stats_successful s \<le> stats_successful s1
       \<and> stats_successful s1 \<le> stats_successful s + 2"
    by (simp add: records_def)
  then show "let s' = sys_after (run e (adapters_of (b64decode e) pg ig_user) h s) in
       stats_total s + 1 \<le> stats_total s' \<and> stats_total s' \<le> stats_total s + 7
       \<and> stats_successful s \<le> stats_successful s'
       \<and> stats_successful s' \<le> stats_successful s + 2"
    by (simp add: run_fields(2) [OF rs])
qed

text \<open>
  The run of a browser without network: Mollygram gives up without recording,
  StoriesViewer records four crashes, Instasaved and IQSaved one each.
\<close>

lemma offline_sources:
  fixes s :: "unit sys"
  shows "\<exists>src evs s'. run_sources (adapters_of b64 offline u) s = (src, s', evs)
           \<and> records 6 0 s s'"
proof -
  define V where "V = (\<lambda>s :: unit sys. snd (tracked ''StoriesViewer''
    ([], ''CRASH'', ''Errore generale: net::ERR_INTERNET_DISCONNECTED'') s))"
  define I where "I = (\<lambda>s :: unit sys. snd (tracked ''Instasaved''
    ([], ''CRASH'', ''Errore: net::ERR_INTERNET_DISCONNECTED'') s))"
  define Q where "Q = (\<lambda>s :: unit sys. snd (tracked ''IQSaved''
    ([], ''CRASH'', ''net::ERR_INTERNET_DISCONNECTED'') s))"
  have g: "goto offline url timeout b = (Inl (Exn ''Error'' ''net::ERR_INTERNET_DISCONNECTED''), b)"
    for url timeout b
    by (simp add: offline_def)
  have rl: "reload offline b = (Inr (), b)" for b
    by (simp add: offline_def)
  have un: "t\<lparr>engine := b\<rparr> = t" for t :: "unit sys" and b
    by (cases t) simp
  have cm: "check_mollygram offline 0 t = (([], ''NO_LINKS'', ''Nessun link trovato dopo i tentativi''), t)"
    for t :: "unit sys"
    by (simp add: check_mollygram.simps [of _ 0] check_mollygram.simps [of _ "Suc 0"]
          check_mollygram.simps [of _ "Suc (Suc 0)"]
          check_mollygram.simps [of _ "Suc (Suc (Suc 0))"] g un)
  have cv: "check_storiesviewer b64 offline t =
      (([], ''CRASH'', ''Errore generale: net::ERR_INTERNET_DISCONNECTED''), V t)"
    for t :: "unit sys"
    by (simp add: check_storiesviewer_def g V_def tracked_def un)
  have rv: "retry_storiesviewer b64 offline 3 0 t =
      (Inr ([], ''ALL_RETRIES_FAILED'', ''Tutti i tentativi falliti''), V (V (V (V t))))"
    for t :: "unit sys"
    by (simp add: retry_storiesviewer.simps [of _ _ _ 0]
          retry_storiesviewer.simps [of _ _ _ "Suc 0"]
          retry_storiesviewer.simps [of _ _ _ "Suc (Suc 0)"]
          retry_storiesviewer.simps [of _ _ _ "Suc (Suc (Suc 0))"]
          retry_storiesviewer.simps [of _ _ _ "Suc (Suc (Suc (Suc 0)))"] cv rl un)
  have ci: "check_instasaved offline u t =
      (([], ''CRASH'', ''Errore: net::ERR_INTERNET_DISCONNECTED''), I t)"
    for t :: "unit sys"
    by (simp add: check_instasaved_def g I_def tracked_def un)
  have cq: "check_iqsaved offline u t = (([], ''CRASH'', ''net::ERR_INTERNET_DISCONNECTED''), Q t)"
    for t :: "unit sys"
    by (simp add: check_iqsaved_def g Q_def tracked_def un)
  have m: "safe_check_mollygram offline t =
      (Inr ([], ''NO_LINKS'', ''Nessun link trovato dopo i tentativi''), t)" for t :: "unit sys"
    by (simp add: safe_check_mollygram_def cm)
  have v: "safe_check_storiesviewer b64 offline t =
      (Inr ([], ''ALL_RETRIES_FAILED'', ''Tutti i tentativi falliti''), V (V (V (V t))))"
    for t :: "unit sys"
    by (simp add: safe_check_storiesviewer_def rv)
  have i: "safe_check_instasaved offline u t =
      (Inr ([], ''CRASH'', ''Errore: net::ERR_INTERNET_DISCONNECTED''), I t)" for t :: "unit sys"
    by (simp add: safe_check_instasaved_def ci)
  have q: "safe_check_iqsaved offline u t =
      (Inr ([], ''CRASH'', ''net::ERR_INTERNET_DISCONNECTED''), Q t)" for t :: "unit sys"
    by (simp add: safe_check_iqsaved_def cq)
  have rs: "fst (snd (run_sources (adapters_of b64 offline u) s)) = Q (I (V (V (V (V s)))))"
    by (simp add: run_sources_def adapters_of_def
          attempt_source_Inr [where adapter = "safe_check_mollygram offline", OF m]
          attempt_source_Inr [where adapter = "safe_check_storiesviewer b64 offline", OF v]
          attempt_source_Inr [where adapter = "safe_check_instasaved offline u", OF i]
          attempt_source_Inr [where adapter = "safe_check_iqsaved offline u", OF q])
  have one: "records (Suc 0) 0 t (snd (tracked site ([], ''CRASH'', err) t))"
    for t :: "unit sys" and site err
    using tracked_records(1) [of "''CRASH''" t site "[]" err "engine t"] by (simp add: un)
  have "records (Suc 0) 0 s (V s)" "records (Suc 0) 0 (V s) (V (V s))"
    "records (Suc 0) 0 (V (V s)) (V (V (V s)))"
    "records (Suc 0) 0 (V (V (V s))) (V (V (V (V s))))"
    "records (Suc 0) 0 (V (V (V (V s)))) (I (V (V (V (V s)))))"
    "records (Suc 0) 0 (I (V (V (V (V s))))) (Q (I (V (V (V (V s))))))"
    unfolding V_def I_def Q_def by (rule one)+
  then have "records 6 0 s (Q (I (V (V (V (V s))))))"
    by (simp add: records_def)
  with rs show ?thesis
    by (cases "run_sources (adapters_of b64 offline u) s") auto
qed

theorem run_counts_recorded_outcomes_witness:
  "failure_file sys0 \<noteq> Corrupt
   \<and> stats_total (snd (track_failure ''Mollygram'' ''SUCCESS'' sys0)) = stats_total sys0 + 1
   \<and> stats_successful (snd (track_failure ''Mollygram'' ''SUCCESS'' sys0)) =
       stats_successful sys0 + 1
   \<and> (\<forall>t. failure_file (snd (mollygram all_empty t)) = failure_file t)
   \<and> (\<forall>t. failure_file (snd (storiesviewer all_empty t)) = failure_file t)
   \<and> (\<forall>t. failure_file (snd (instasaved all_empty t)) = failure_file t)
   \<and> (\<forall>t. failure_file (snd (iqsaved all_empty t)) = failure_file t)
   \<and> failure_file (sys_after (run env0 all_empty None sys0)) = failure_file sys0
   \<and> stats_total sys0 + 1 \<le> stats_total (sys_after offline_run)
   \<and> stats_total (sys_after offline_run) \<le> stats_total sys0 + 7
   \<and> stats_successful sys0 \<le> stats_successful (sys_after offline_run)
   \<and> stats_successful (sys_after offline_run) \<le> stats_successful sys0 + 2"
proof -
  have ok: "failure_file sys0 \<noteq> Corrupt" by (simp add: sys0_def)
  have ad: "(\<forall>t. failure_file (snd (mollygram all_empty t)) = failure_file t)
   \<and> (\<forall>t. failure_file (snd (storiesviewer all_empty t)) = failure_file t)
   \<and> (\<forall>t. failure_file (snd (instasaved all_empty t)) = failure_file t)
   \<and> (\<forall>t. failure_file (snd (iqsaved all_empty t)) = failure_file t)"
    by (simp add: all_empty_def no_links_def returns_def)
  note th = run_counts_recorded_outcomes
    [of sys0 "''Mollygram''" "''SUCCESS''" all_empty env0 None offline "''user''"]
  from th [THEN conjunct1, THEN mp, OF ok]
    th [THEN conjunct2, THEN conjunct1, THEN mp, OF ad]
    th [THEN conjunct2, THEN conjunct2, THEN mp, OF ok]
    ok ad
  show ?thesis
    by (simp add: offline_run_def Let_def)
qed

text \<open>
  A run with two recorded successes: Mollygram shows one proxy link without a
  \<^verbatim>\<open>media\<close> parameter, so it records SUCCESS and returns no link; StoriesViewer then
  finds one story.
\<close>

definition undecodable :: "unit page" where
  "undecodable =
     \<lparr>goto = (\<lambda>url timeout b. (Inr 200, b)),
      reload = (\<lambda>b. (Inr (), b)),
      search_user = (\<lambda>b. (Inr (), b)),
      viewer_wait = (\<lambda>b. (Stories_found, b)),
      viewer_hrefs = (\<lambda>b.
        (Inr ([Some ''/media.php?media=https%3A%2F%2Fcdninstagram.com%2Fa.jpg''], None), b)),
      molly_scroll = (\<lambda>b. (Inr (True, False), b)),
      molly_hrefs = (\<lambda>b. (Inr [Some ''https://anon-viewer.com/media.php?id=1''], b)),
      insta_hrefs = (\<lambda>b. (Inr [], b)),
      iq_hrefs = (\<lambda>b. (Inr ([], []), b))\<rparr>"

definition undecodable_run :: "unit run_result" where
  "undecodable_run = run env0 (adapters_of (b64decode env0) undecodable ''user'') None sys0"

lemma undecodable_links:
  "molly_proxy_urls [Some ''https://anon-viewer.com/media.php?id=1''] =
     [''https://anon-viewer.com/media.php?id=1'']"
  "decode_mollygram_url ''https://anon-viewer.com/media.php?id=1'' = None"
  "validate_links (\<lambda>s. None)
     (List.map_filter viewer_link
        (present [Some ''/media.php?media=https%3A%2F%2Fcdninstagram.com%2Fa.jpg''])) =
     [''https://cdninstagram.com/a.jpg'']"
  by code_simp+

lemma undecodable_sources:
  fixes s :: "unit sys"
  shows "\<exists>src evs s'. run_sources (adapters_of (\<lambda>s. None) undecodable u) s = (src, s', evs)
           \<and> records 2 2 s s'"
proof -
  define M where "M = (\<lambda>s :: unit sys. snd (tracked ''Mollygram'' ([], ''SUCCESS'', []) s))"
  define V where "V = (\<lambda>s :: unit sys. snd (tracked ''StoriesViewer''
    ([''https://cdninstagram.com/a.jpg''], ''SUCCESS'', []) s))"
  have pg: "goto undecodable url timeout b = (Inr 200, b)"
    "search_user undecodable b = (Inr (), b)"
    "viewer_wait undecodable b = (Stories_found, b)"
    "viewer_hrefs undecodable b =
       (Inr ([Some ''/media.php?media=https%3A%2F%2Fcdninstagram.com%2Fa.jpg''], None), b)"
    "molly_scroll undecodable b = (Inr (True, False), b)"
    "molly_hrefs undecodable b = (Inr [Some ''https://anon-viewer.com/media.php?id=1''], b)"
    for url timeout b
    by (simp_all add: undecodable_def)
  have un: "t\<lparr>engine := b\<rparr> = t" for t :: "unit sys" and b
    by (cases t) simp
  have cm: "check_mollygram undecodable 0 t = (([], ''SUCCESS'', []), M t)" for t :: "unit sys"
    by (simp add: check_mollygram.simps [of _ 0] pg un undecodable_links M_def tracked_def
          List.map_filter_simps)
  have cv: "check_storiesviewer (\<lambda>s. None) undecodable t =
      (([''https://cdninstagram.com/a.jpg''], ''SUCCESS'', []), V t)" for t :: "unit sys"
    by (simp add: check_storiesviewer_def viewer_collect_def pg un undecodable_links V_def
          tracked_def)
  have rv: "retry_storiesviewer (\<lambda>s. None) undecodable 3 0 t =
      (Inr ([''https://cdninstagram.com/a.jpg''], ''SUCCESS'', []), V t)" for t :: "unit sys"
    by (simp add: retry_storiesviewer.simps [of _ _ _ 0] cv)
  have m: "safe_check_mollygram undecodable t = (Inr ([], ''SUCCESS'', []), M t)"
    for t :: "unit sys"
    by (simp add: safe_check_mollygram_def cm)
  have v: "safe_check_storiesviewer (\<lambda>s. None) undecodable t =
      (Inr ([''https://cdninstagram.com/a.jpg''], ''SUCCESS'', []), V t)" for t :: "unit sys"
    by (simp add: safe_check_storiesviewer_def rv)
  have rs: "fst (snd (run_sources (adapters_of (\<lambda>s. None) undecodable u) s)) = V (M s)"
    by (simp add: run_sources_def adapters_of_def
          attempt_source_Inr [where adapter = "safe_check_mollygram undecodable", OF m]
          attempt_source_Inr
            [where adapter = "safe_check_storiesviewer (\<lambda>s. None) undecodable", OF v])
  have one: "records (Suc 0) (Suc 0) t (snd (tracked site (links, ''SUCCESS'', err) t))"
    for t :: "unit sys" and site links err
    using tracked_records(2) [of t site links err "engine t"] by (simp add: un)
  have "records (Suc 0) (Suc 0) s (M s)" "records (Suc 0) (Suc 0) (M s) (V (M s))"
    unfolding M_def V_def by (rule one)+
  then have "records 2 2 s (V (M s))"
    by (simp add: records_def)
  with rs show ?thesis
    by (cases "run_sources (adapters_of (\<lambda>s. None) undecodable u) s") auto
qed

text \<open>
  Claim C9 as stated does not hold. One run of the orchestrator without network, from a
  state without tracker file, leaves \<^verbatim>\<open>total_runs\<close> at 6; and one run in which Mollygram
  and StoriesViewer both record SUCCESS leaves \<^verbatim>\<open>successful_runs\<close> at 2.
\<close>

theorem run_stats_per_outcome_counterexample:
  "stats_total sys0 = 0 \<and> stats_total (sys_after offline_run) = 6
   \<and> stats_successful sys0 = 0 \<and> stats_successful (sys_after undecodable_run) = 2"
proof -
  have b: "b64decode env0 = (\<lambda>s. None)" by (simp add: env0_def)
  obtain src evs s' where
    rs: "run_sources (adapters_of (b64decode env0) offline ''user'') sys0 = (src, s', evs)"
    and r: "records 6 0 sys0 s'"
    using offline_sources [of "b64decode env0" "''user''" sys0] by blast
  obtain src2 evs2 s2 where
    rs2: "run_sources (adapters_of (b64decode env0) undecodable ''user'') sys0 = (src2, s2, evs2)"
    and r2: "records 2 2 sys0 s2"
    using undecodable_sources [of "''user''" sys0] unfolding b by blast
  have "sys_after offline_run = s'"
    unfolding offline_run_def by (rule run_fields(2) [OF rs])
  moreover have "sys_after undecodable_run = s2"
    unfolding undecodable_run_def by (rule run_fields(2) [OF rs2])
  moreover have "failure_file sys0 = Absent" by (simp add: sys0_def)
  ultimately show ?thesis
    using r r2 by (simp add: records_def stats_total_def stats_successful_def)
qed

end
